theory Spec2Isabelle
  imports Main
begin

section \<open>JavaScript strings\<close>

text \<open>
  A JavaScript string is a sequence of code units and \<open>length\<close> counts them. The model
  uses \<^typ>\<open>string\<close>, whose characters are the code units 0 to 255 (Latin-1); strings
  with larger code units are outside the model.
\<close>

definition newline :: char where
  "newline = CHR 0x0A"

definition space :: char where
  "space = CHR 0x20"

definition isSpace :: "char \<Rightarrow> bool" where
  \<comment> \<open>The class \<open>\s\<close> of a JavaScript regular expression, which is also what \<open>trim\<close>
      removes, restricted to the code units 0 to 255.\<close>
  "isSpace c = (c \<in> set [CHR 0x09, CHR 0x0A, CHR 0x0B, CHR 0x0C, CHR 0x0D, CHR 0x20, CHR 0xA0])"

fun join :: "string \<Rightarrow> string list \<Rightarrow> string" where
  \<comment> \<open>\<open>Array.prototype.join\<close> on an array of strings.\<close>
  "join sep [] = []"
| "join sep [x] = x"
| "join sep (x # y # ys) = x @ sep @ join sep (y # ys)"

definition slice04 :: "string \<Rightarrow> string" where
  \<comment> \<open>\<open>s.slice(0, 4)\<close>: the first four code units, or all of a shorter string.\<close>
  "slice04 s = take 4 s"

definition last_elem :: "'a list \<Rightarrow> 'a option" where
  \<comment> \<open>\<open>l[l.length - 1]\<close>; \<open>None\<close> is \<open>undefined\<close>, the value read from an empty array.\<close>
  "last_elem l = (if l = [] then None else Some (last l))"

definition plus_str :: "string option \<Rightarrow> string" where
  \<comment> \<open>The string an operand of \<open>+\<close> or of a template literal is converted to.\<close>
  "plus_str x = (case x of None \<Rightarrow> ''undefined'' | Some s \<Rightarrow> s)"

definition join_str :: "string option \<Rightarrow> string" where
  \<comment> \<open>The string \<open>join\<close> uses for an element: \<open>undefined\<close> is joined as the empty
      string.\<close>
  "join_str x = (case x of None \<Rightarrow> [] | Some s \<Rightarrow> s)"

datatype error = RangeError | TypeError

datatype number = MinusInfinity | Finite int

text \<open>
  The numbers \<open>formatEntry\<close> computes with: \<open>Math.max\<close> of no argument is \<open>-Infinity\<close>,
  and it stays \<open>-Infinity\<close> when a finite number is added or subtracted.
\<close>

definition Math_max :: "int list \<Rightarrow> number" where
  \<comment> \<open>\<open>Math.max(...xs)\<close>\<close>
  "Math_max xs = (case xs of [] \<Rightarrow> MinusInfinity | x # ys \<Rightarrow> Finite (fold max ys x))"

definition plus_num :: "number \<Rightarrow> int \<Rightarrow> number" where
  "plus_num m i = (case m of MinusInfinity \<Rightarrow> MinusInfinity | Finite j \<Rightarrow> Finite (j + i))"

definition minus_num :: "number \<Rightarrow> int \<Rightarrow> number" where
  "minus_num m i = (case m of MinusInfinity \<Rightarrow> MinusInfinity | Finite j \<Rightarrow> Finite (j - i))"

definition repeat :: "string \<Rightarrow> number \<Rightarrow> error + string" where
  \<comment> \<open>\<open>s.repeat(n)\<close>: a negative or infinite count throws a \<open>RangeError\<close>.\<close>
  "repeat s n =
     (case n of
        MinusInfinity \<Rightarrow> Inl RangeError
      | Finite i \<Rightarrow> if i < 0 then Inl RangeError else Inr (concat (replicate (nat i) s)))"

definition replace_newlines :: "string \<Rightarrow> string \<Rightarrow> string" where
  \<comment> \<open>\<open>s.replace(/\n/g, r)\<close> for a replacement \<open>r\<close> without \<open>$\<close> patterns.\<close>
  "replace_newlines s r = concat (map (\<lambda>c. if c = newline then r else [c]) s)"

section \<open>The helpers of \<open>src/utils\<close>\<close>

definition stripAccent :: "char \<Rightarrow> char" where
  \<comment> \<open>Modelled from the spec: one character of \<open>removeAccents\<close>. An accented
      Latin-1 letter becomes its base Latin letter; every other character is kept.\<close>
  "stripAccent c =
     (let n = (of_char c :: nat) in
      if 0xC0 \<le> n \<and> n \<le> 0xC5 then CHR ''A''
      else if n = 0xC7 then CHR ''C''
      else if 0xC8 \<le> n \<and> n \<le> 0xCB then CHR ''E''
      else if 0xCC \<le> n \<and> n \<le> 0xCF then CHR ''I''
      else if n = 0xD1 then CHR ''N''
      else if 0xD2 \<le> n \<and> n \<le> 0xD6 then CHR ''O''
      else if 0xD9 \<le> n \<and> n \<le> 0xDC then CHR ''U''
      else if n = 0xDD then CHR ''Y''
      else if 0xE0 \<le> n \<and> n \<le> 0xE5 then CHR ''a''
      else if n = 0xE7 then CHR ''c''
      else if 0xE8 \<le> n \<and> n \<le> 0xEB then CHR ''e''
      else if 0xEC \<le> n \<and> n \<le> 0xEF then CHR ''i''
      else if n = 0xF1 then CHR ''n''
      else if 0xF2 \<le> n \<and> n \<le> 0xF6 then CHR ''o''
      else if 0xF9 \<le> n \<and> n \<le> 0xFC then CHR ''u''
      else if n = 0xFD \<or> n = 0xFF then CHR ''y''
      else c)"

definition removeAccents :: "string \<Rightarrow> string" where
  \<comment> \<open>Modelled from the spec: \<open>removeAccents\<close> of \<open>src/utils\<close>, which is not among the
      sources. Section 4.1: the key is the unformatted key "with diacritics/accents stripped
      to base Latin letters".\<close>
  "removeAccents s = map stripAccent s"

definition splitter_step :: "char \<Rightarrow> string \<times> string list \<Rightarrow> string \<times> string list" where
  \<comment> \<open>Modelled from the spec: one step of \<open>splitter\<close>, from the right: the token in
      progress and the tokens found.\<close>
  "splitter_step c st =
     (case st of (cur, acc) \<Rightarrow>
        if isSpace c then ([], if cur = [] then acc else cur # acc) else (c # cur, acc))"

definition splitter :: "string \<Rightarrow> string list" where
  \<comment> \<open>Modelled from the spec: \<open>splitter\<close> of \<open>src/utils\<close>, which is not among the sources,
      at the separator \<open>/\s+/\<close> it is called with. Section 4.1: "split on whitespace into
      tokens"; section 7: "multiple consecutive spaces collapse to one split point". The
      tokens are the maximal runs of characters that are not whitespace.\<close>
  "splitter a =
     (case foldr splitter_step a ([], []) of (cur, acc) \<Rightarrow> if cur = [] then acc else cur # acc)"

section \<open>Key and author list\<close>

definition joinAuthorsGetKey :: "string list \<Rightarrow> string \<Rightarrow> string \<times> string" where
  \<comment> \<open>Returns \<open>(key, authorList)\<close>.\<close>
  "joinAuthorsGetKey authors date =
     (let splitAuthors = map splitter authors;
          authorList =
            join '' and ''
              (map (\<lambda>l. plus_str (last_elem l) @ '', '' @ join '' '' (butlast l)) splitAuthors);
          year = slice04 date;
          unformattedKey = join [] (map (\<lambda>l. join_str (last_elem l)) splitAuthors) @ year;
          key = removeAccents unformattedKey
      in (key, authorList))"

definition surname :: "string \<Rightarrow> string" where
  \<comment> \<open>The last whitespace-separated token of a name; empty when the name has no token.\<close>
  "surname a = (case splitter a of [] \<Rightarrow> [] | t # ts \<Rightarrow> last (t # ts))"

section \<open>Values and pairings\<close>

datatype jsx =
    Anchor string string  \<comment> \<open>\<open><a href={h}>{child}</a>\<close>\<close>
  | Abbr string string  \<comment> \<open>\<open><abbr title={t}>{child}</abbr>\<close>\<close>

datatype val = Undefined | Null | Str string | Num int | Elem jsx

text \<open>
  The values a \<open>Pairing\<close> holds: \<open>string | JSX.Element | number | null | undefined\<close>.
  Numbers are restricted to the integers.
\<close>

fun truthy :: "val \<Rightarrow> bool" where
  "truthy Undefined = False"
| "truthy Null = False"
| "truthy (Str s) = (s \<noteq> [])"
| "truthy (Num n) = (n \<noteq> 0)"
| "truthy (Elem e) = True"

definition opt :: "string option \<Rightarrow> val" where
  \<comment> \<open>An optional attribute read from an object: \<open>undefined\<close> when it is absent.\<close>
  "opt x = (case x of None \<Rightarrow> Undefined | Some s \<Rightarrow> Str s)"

definition present :: "string option \<Rightarrow> bool" where
  \<comment> \<open>The truthiness of an optional string attribute.\<close>
  "present x = truthy (opt x)"

type_synonym Pairing = "(string \<times> val) list"

text \<open>
  An object is the list of its own properties in the order \<open>Object.keys\<close> lists them, each
  key once. For keys that are not array indices this is the order of insertion.
\<close>

definition Object_keys :: "Pairing \<Rightarrow> string list" where
  "Object_keys p = map fst p"

definition get_prop :: "Pairing \<Rightarrow> string \<Rightarrow> val" where
  \<comment> \<open>\<open>p[k]\<close>\<close>
  "get_prop p k = (case map_of p k of None \<Rightarrow> Undefined | Some v \<Rightarrow> v)"

fun set_prop :: "string \<Rightarrow> val \<Rightarrow> Pairing \<Rightarrow> Pairing" where
  \<comment> \<open>\<open>p[k] = v\<close>, and one property of an object literal: an existing key keeps its
      place, a new key goes last.\<close>
  "set_prop k v [] = [(k, v)]"
| "set_prop k v ((k', v') # p) = (if k' = k then (k, v) # p else (k', v') # set_prop k v p)"

definition delete_prop :: "string \<Rightarrow> Pairing \<Rightarrow> Pairing" where
  \<comment> \<open>\<open>delete p[k]\<close>\<close>
  "delete_prop k p = filter (\<lambda>kv. fst kv \<noteq> k) p"

definition spread :: "Pairing \<Rightarrow> (string \<times> val) list \<Rightarrow> Pairing" where
  \<comment> \<open>The object literal \<open>{...p, k1: v1, ..., kn: vn}\<close>; with \<open>p = []\<close> the literal
      \<open>{k1: v1, ..., kn: vn}\<close>.\<close>
  "spread p kvs = fold (\<lambda>kv q. set_prop (fst kv) (snd kv) q) kvs p"

definition wf_object :: "Pairing \<Rightarrow> bool" where
  "wf_object p = distinct (map fst p)"

section \<open>Rendering\<close>

datatype node =
    Leaf val  \<comment> \<open>a child \<open>{v}\<close> of the outer fragment\<close>
  | Fragment string "val list"  \<comment> \<open>\<open><React.Fragment key={k}>\<close> and its children\<close>

fun digits :: "nat \<Rightarrow> string" where
  "digits n =
     (if n < 10 then [''0123456789'' ! n] else digits (n div 10) @ [''0123456789'' ! (n mod 10)])"

declare digits.simps [simp del]

fun val_text :: "val \<Rightarrow> string" where
  \<comment> \<open>The text a child contributes to \<open>innerText\<close>: nothing for \<open>null\<close> and \<open>undefined\<close>,
      the decimal digits of a number, the child text of an element.\<close>
  "val_text Undefined = []"
| "val_text Null = []"
| "val_text (Str s) = s"
| "val_text (Num n) = (if n < 0 then ''-'' @ digits (nat (- n)) else digits (nat n))"
| "val_text (Elem (Anchor h child)) = child"
| "val_text (Elem (Abbr t child)) = child"

fun node_text :: "node \<Rightarrow> string" where
  "node_text (Leaf v) = val_text v"
| "node_text (Fragment k children) = concat (map val_text children)"

definition innerText :: "node list \<Rightarrow> string" where
  \<comment> \<open>The text of the rendered entry, which the copy button writes to the clipboard.\<close>
  "innerText nodes = concat (map node_text nodes)"

fun collect :: "(error + 'a) list \<Rightarrow> error + 'a list" where
  \<comment> \<open>The results of \<open>map\<close> over a callback that may throw: the first error stops it.\<close>
  "collect [] = Inr []"
| "collect (Inl e # rs) = Inl e"
| "collect (Inr x # rs) = (case collect rs of Inl e \<Rightarrow> Inl e | Inr xs \<Rightarrow> Inr (x # xs))"

definition maxKeyLength :: "Pairing \<Rightarrow> number" where
  "maxKeyLength pairing = Math_max (map (\<lambda>s. int (length s)) (Object_keys pairing))"

definition pad_abstract :: "Pairing \<Rightarrow> error + Pairing" where
  \<comment> \<open>The statement \<open>if (pairing.abstract) { pairing.abstract = ... }\<close>. The argument of
      \<open>replace\<close> is evaluated before the call, and the call throws a \<open>TypeError\<close> on a value
      that is not a string.\<close>
  "pad_abstract pairing =
     (if truthy (get_prop pairing ''abstract'')
      then case repeat '' '' (plus_num (maxKeyLength pairing) 6) of
          Inl e \<Rightarrow> Inl e
        | Inr sp \<Rightarrow>
            (case get_prop pairing ''abstract'' of
               Str a \<Rightarrow> Inr (set_prop ''abstract'' (Str (replace_newlines a (newline # sp))) pairing)
             | _ \<Rightarrow> Inl TypeError)
      else Inr pairing)"

definition fragment :: "number \<Rightarrow> Pairing \<Rightarrow> string \<Rightarrow> error + node" where
  \<comment> \<open>The fragment rendered for one key.\<close>
  "fragment m pairing k =
     (case repeat '' '' (minus_num m (int (length k))) of
        Inl e \<Rightarrow> Inl e
      | Inr sp \<Rightarrow>
          Inr (Fragment k
            [Str ''  '', Str k, Str sp, Str '' = {'', get_prop pairing k, Str (''},'' @ [newline])]))"

definition formatEntry :: "string \<Rightarrow> Pairing \<Rightarrow> string \<Rightarrow> (error + node list) \<times> Pairing" where
  \<comment> \<open>Returns the rendered children, or the error thrown, and the pairing object as the
      call leaves it.\<close>
  "formatEntry type pairing key =
     (let m = maxKeyLength pairing
      in case pad_abstract pairing of
          Inl e \<Rightarrow> (Inl e, pairing)
        | Inr pairing' \<Rightarrow>
            (case collect (map (fragment m pairing') (Object_keys pairing')) of
               Inl e \<Rightarrow> (Inl e, pairing')
             | Inr frags \<Rightarrow>
                 (Inr (Leaf (Str (''@'' @ type @ ''{'' @ key @ '','' @ [newline])) # frags @
                       [Leaf (Str ''}'')]),
                  pairing')))"

section \<open>Entries and settings\<close>

text \<open>
  Modelled from the spec: the declaration of \<open>Entry\<close> is not among the sources. Section 3
  lists its attributes, "all fields optional except authors, title, date, type"; the
  attribute \<open>id\<close> of the source is the field \<open>id'\<close>. An optional attribute is absent
  (\<open>None\<close>) or a text.
\<close>

record Entry =
  authors :: "string list"
  title :: string
  date :: string
  type :: string
  mainTitle :: "string option"
  subTitle :: "string option"
  journal :: "string option"
  series :: "string option"
  volume :: "string option"
  number :: "string option"
  publisher :: "string option"
  location :: "string option"
  ISBN :: "string option"
  pageTotal :: "string option"
  pubstate :: "string option"
  id' :: "string option"
  primaryCategory :: "string option"
  version :: "string option"
  doi :: "string option"
  journalRef :: "string option"
  pdfLink :: "string option"
  comment :: "string option"
  abstract :: "string option"

text \<open>
  Modelled from the spec: the declaration of \<open>Settings\<close> is not among the sources. Section 3
  lists the mode, the file folder and the flags.
\<close>

record Settings =
  mode :: string
  filePrefix :: bool
  fileFolder :: string
  includeFile :: bool
  includeAbstract :: bool
  includeWget :: bool
  includeVersion :: bool
  includePrimaryCategory :: bool
  wgetPowershell :: bool

section \<open>Building the pairing\<close>

definition head_char :: "string \<Rightarrow> string option" where
  \<comment> \<open>\<open>key[0]\<close>; \<open>None\<close> is \<open>undefined\<close>, read from the empty string.\<close>
  "head_char s = (case s of [] \<Rightarrow> None | c # cs \<Rightarrow> Some [c])"

definition goodMode :: "Settings \<Rightarrow> bool" where
  "goodMode settings = (mode settings = ''biblatex'')"

definition fileName :: "Entry \<Rightarrow> Settings \<Rightarrow> string" where
  "fileName entry settings =
     (let key = fst (joinAuthorsGetKey (authors entry) (date entry))
      in (if filePrefix settings then plus_str (head_char key) @ ''/'' else []) @ key @ ''.pdf'')"

definition fileLink :: "Entry \<Rightarrow> Settings \<Rightarrow> val" where
  "fileLink entry settings =
     (if present (pdfLink entry)
      then Elem (Anchor (plus_str (pdfLink entry)) (fileName entry settings))
      else Str (fileName entry settings))"

definition abbr_title :: string where
  "abbr_title = ''Consider converting this entry to @article or something more appropriate.''"

definition journalRefLink :: "Entry \<Rightarrow> val" where
  "journalRefLink entry =
     (if present (journalRef entry)
      then Elem (Abbr abbr_title (plus_str (journalRef entry)))
      else Null)"

definition doiLink :: "Entry \<Rightarrow> val" where
  "doiLink entry =
     (if present (doi entry)
      then Elem (Anchor (''https://dx.doi.org/'' @ plus_str (doi entry)) (plus_str (doi entry)))
      else Null)"

definition journal' :: "Entry \<Rightarrow> Settings \<Rightarrow> val" where
  \<comment> \<open>The local variable \<open>journal\<close>.\<close>
  "journal' entry settings =
     (if present (journal entry)
      then Str (plus_str (journal entry) @
                (if \<not> goodMode settings \<and> present (series entry)
                 then '' ('' @ plus_str (series entry) @ '')'' else []))
      else Null)"

definition dateOrYear :: "Entry \<Rightarrow> Settings \<Rightarrow> string" where
  "dateOrYear entry settings = (if goodMode settings then date entry else slice04 (date entry))"

definition absURL :: "Entry \<Rightarrow> string" where
  "absURL entry = ''https://arxiv.org/abs/'' @ plus_str (id' entry)"

definition assemble :: "Entry \<Rightarrow> Settings \<Rightarrow> Pairing" where
  \<comment> \<open>The variable \<open>pairing\<close> of \<open>buildPairing\<close> just before the empty values are
      deleted.\<close>
  "assemble entry settings =
     (let good = goodMode settings;
          authorList = snd (joinAuthorsGetKey (authors entry) (date entry));
          pairing = spread []
            [(''author'', Str authorList),
             (if good then ''date'' else ''year'', Str (dateOrYear entry settings)),
             (''title'', Str (title entry)),
             (if good then ''journaltitle'' else ''journal'', journal' entry settings),
             (''series'', if good then opt (series entry) else Null),
             (''maintitle'', opt (mainTitle entry)),
             (''subtitle'', opt (subTitle entry)),
             (''volume'', opt (volume entry)),
             (''number'', opt (number entry)),
             (''publisher'', opt (publisher entry)),
             (''location'', opt (location entry)),
             (''isbn'', opt (ISBN entry)),
             (''pagetotal'', opt (pageTotal entry))];
          pairing =
            (if present (id' entry)
             then spread pairing
               [(''eprint'', Elem (Anchor (absURL entry) (plus_str (id' entry)))),
                (if good then ''eprinttype'' else ''archiveprefix'', Str ''arXiv''),
                (if good then ''eprintclass'' else ''primaryclass'',
                 if includePrimaryCategory settings then opt (primaryCategory entry) else Null),
                (''version'', if good \<and> includeVersion settings then opt (version entry) else Null),
                (''url'', if good then Null else Str (absURL entry))]
             else pairing);
          pairing =
            (if good
             then spread pairing
               [(''pubstate'', opt (pubstate entry)),
                (''howpublished'', journalRefLink entry)]
             else spread pairing
               [(''note'',
                 if present (doi entry) \<or> present (journalRef entry)
                 then journalRefLink entry else Str ''Preprint'')])
      in spread pairing
           [(''doi'', doiLink entry),
            (''file'', if includeFile settings then fileLink entry settings else Null),
            (''comment'', opt (comment entry)),
            (''abstract'', if includeAbstract settings then opt (abstract entry) else Null)])"

definition delete_empty :: "Pairing \<Rightarrow> Pairing" where
  \<comment> \<open>\<open>Object.keys(pairing).forEach((k) => !pairing[k] && delete pairing[k])\<close>\<close>
  "delete_empty p =
     fold (\<lambda>k q. if \<not> truthy (get_prop q k) then delete_prop k q else q) (Object_keys p) p"

definition wget :: "Entry \<Rightarrow> Settings \<Rightarrow> string option" where
  \<comment> \<open>The variable \<open>wget\<close>; \<open>None\<close> is \<open>null\<close>.\<close>
  "wget entry settings =
     (if includeFile settings \<and> present (pdfLink entry)
      then if wgetPowershell settings
        then Some (''pwsh -Command Invoke-WebRequest '' @ plus_str (pdfLink entry) @
                   '' -OutFile '' @ fileFolder settings @ [CHR 0x5C] @ fileName entry settings)
        else Some (''wget --user-agent='Mozilla' '' @ plus_str (pdfLink entry) @
                   '' -O '' @ fileFolder settings @ ''/'' @ fileName entry settings)
      else None)"

record Built =
  built_type :: string
  built_pairing :: Pairing
  built_key :: string
  built_wget :: "string option"

definition buildPairing :: "Entry \<Rightarrow> Settings \<Rightarrow> Built" where
  "buildPairing entry settings =
     \<lparr> built_type = type entry,
       built_pairing = delete_empty (assemble entry settings),
       built_key = fst (joinAuthorsGetKey (authors entry) (date entry)),
       built_wget = wget entry settings \<rparr>"

section \<open>The component\<close>





section \<open>Reading the rendered lines back\<close>

text \<open>
  The reading of the rendered \<open>key = {value}\<close> lines that the round-trip property of the
  specification describes. It is no part of the program.
\<close>

definition lines_step :: "char \<Rightarrow> string list \<Rightarrow> string list" where
  "lines_step c ls =
     (if c = newline then [] # ls
      else case ls of [] \<Rightarrow> [[c]] | l # ls' \<Rightarrow> (c # l) # ls')"

definition lines_of :: "string \<Rightarrow> string list" where
  \<comment> \<open>The lines of a text, each ended by a line break (the last one may lack it).\<close>
  "lines_of s = foldr lines_step s []"

definition trim :: "string \<Rightarrow> string" where
  "trim s = rev (dropWhile isSpace (rev (dropWhile isSpace s)))"

definition parse_line :: "string \<Rightarrow> (string \<times> string) option" where
  \<comment> \<open>Splits a line on its first \<open>=\<close>, trims both sides, and reads the value between
      \<open>{\<close> and \<open>},\<close>.\<close>
  "parse_line l =
     (if CHR ''='' \<in> set l
      then let k = trim (takeWhile (\<lambda>c. c \<noteq> CHR ''='') l);
               r = trim (drop 1 (dropWhile (\<lambda>c. c \<noteq> CHR ''='') l))
           in if 3 \<le> length r \<and> take 1 r = ''{'' \<and> drop (length r - 2) r = ''},''
              then Some (k, take (length r - 3) (drop 1 r))
              else None
      else None)"

definition is_fragment :: "node \<Rightarrow> bool" where
  "is_fragment n = (case n of Leaf v \<Rightarrow> False | Fragment k children \<Rightarrow> True)"

definition body_text :: "node list \<Rightarrow> string" where
  \<comment> \<open>The text of the \<open>key = {value}\<close> lines, without the header and the closing brace.\<close>
  "body_text nodes = concat (map node_text (filter is_fragment nodes))"

definition reparse :: "string \<Rightarrow> (string \<times> string) list option" where
  "reparse body = those (map parse_line (lines_of body))"

section \<open>Closed forms used in the statements\<close>

text \<open>
  Auxiliary notions for the statements below: what \<open>formatEntry\<close> returns is proved equal
  to them.
\<close>

definition abstract_typed :: "Pairing \<Rightarrow> bool" where
  \<comment> \<open>The declaration \<open>abstract?: string | null\<close> of the type \<open>Pairing\<close>.\<close>
  "abstract_typed p =
     (case get_prop p ''abstract'' of Num n \<Rightarrow> False | Elem e \<Rightarrow> False | _ \<Rightarrow> True)"

definition maxLen :: "Pairing \<Rightarrow> nat" where
  \<comment> \<open>The greatest length of a key of the pairing; 0 when it has no key.\<close>
  "maxLen p = fold max (map length (Object_keys p)) 0"

definition padded :: "Pairing \<Rightarrow> Pairing" where
  \<comment> \<open>The pairing with the line breaks of a non-empty \<open>abstract\<close> text followed by
      \<open>maxLen p + 6\<close> spaces.\<close>
  "padded p =
     (case get_prop p ''abstract'' of
        Str a \<Rightarrow>
          if a = [] then p
          else set_prop ''abstract''
                 (Str (replace_newlines a (newline # replicate (maxLen p + 6) space))) p
      | _ \<Rightarrow> p)"

definition line :: "nat \<Rightarrow> string \<Rightarrow> val \<Rightarrow> node" where
  \<comment> \<open>The fragment of the key \<open>k\<close> with the value \<open>v\<close>, padded to keys of length \<open>m\<close>.\<close>
  "line m k v =
     Fragment k
       [Str ''  '', Str k, Str (replicate (m - length k) space), Str '' = {'', v,
        Str (''},'' @ [newline])]"

definition header :: "string \<Rightarrow> string \<Rightarrow> node" where
  "header t k = Leaf (Str (''@'' @ t @ ''{'' @ k @ '','' @ [newline]))"






section \<open>The examples of the specification\<close>

definition example_entry :: Entry where
  "example_entry =
     \<lparr> authors = [''Jane Doe'', ''John Dew''], title = ''A title'', date = ''2020-01-01'',
       type = ''Article'', mainTitle = None, subTitle = None, journal = Some ''Annals of Math'',
       series = Some ''2nd series'', volume = None, number = None, publisher = None,
       location = None, ISBN = None, pageTotal = None, pubstate = None, id' = None,
       primaryCategory = None, version = None, doi = None, journalRef = None,
       pdfLink = Some ''http://x/y.pdf'', comment = None, abstract = None \<rparr>"

definition example_settings :: Settings where
  "example_settings =
     \<lparr> mode = ''bibtex'', filePrefix = False, fileFolder = ''papers'', includeFile = True,
       includeAbstract = True, includeWget = True, includeVersion = False,
       includePrimaryCategory = False, wgetPowershell = False \<rparr>"

section \<open>Properties of the key\<close>

lemma join_empty_sep: "join [] xs = concat xs"
  by (induction "[] :: string" xs rule: join.induct) simp_all

lemma join_str_last_elem: "join_str (last_elem (splitter a)) = surname a"
  by (cases "splitter a") (simp_all add: join_str_def last_elem_def surname_def)

lemma key_concat:
  "fst (joinAuthorsGetKey as d) = removeAccents (concat (map surname as) @ take 4 d)"
  by (simp add: joinAuthorsGetKey_def Let_def join_empty_sep slice04_def comp_def
      join_str_last_elem)

lemma splitter_Jane: "splitter ''Jane Doe'' = [''Jane'', ''Doe'']"
  by (simp add: splitter_def splitter_step_def isSpace_def)

lemma splitter_John: "splitter ''John Dew'' = [''John'', ''Dew'']"
  by (simp add: splitter_def splitter_step_def isSpace_def)

lemma removeAccents_DoeDew: "removeAccents ''DoeDew2020'' = ''DoeDew2020''"
  by (simp add: removeAccents_def stripAccent_def)

lemma stripAccent_ascii: "of_char c < (0xC0::nat) \<Longrightarrow> stripAccent c = c"
  by (simp add: stripAccent_def Let_def)

lemma removeAccents_ascii: "\<forall>c\<in>set s. of_char c < (0xC0::nat) \<Longrightarrow> removeAccents s = s"
  by (simp add: removeAccents_def stripAccent_ascii map_idI)

lemma removeAccents_fixed: "\<forall>c\<in>set s. stripAccent c = c \<Longrightarrow> removeAccents s = s"
  by (simp add: removeAccents_def map_idI)

lemma splitter_fold_suffix:
  "\<exists>pre. snd (foldr splitter_step a (c0, acc0)) = pre @ acc0"
proof (induction a)
  case Nil
  show ?case by simp
next
  case (Cons c a)
  then obtain pre where p: "snd (foldr splitter_step a (c0, acc0)) = pre @ acc0" by blast
  obtain cur acc where st: "foldr splitter_step a (c0, acc0) = (cur, acc)"
    by (cases "foldr splitter_step a (c0, acc0)")
  with p have acc: "acc = pre @ acc0" by simp
  show ?case
  proof (cases "isSpace c \<and> cur \<noteq> []")
    case True
    then have "snd (foldr splitter_step (c # a) (c0, acc0)) = (cur # pre) @ acc0"
      by (simp add: st splitter_step_def acc)
    then show ?thesis by blast
  next
    case False
    then have "snd (foldr splitter_step (c # a) (c0, acc0)) = pre @ acc0"
      by (auto simp add: st splitter_step_def acc)
    then show ?thesis by blast
  qed
qed

lemma splitter_fold_word:
  "\<forall>c\<in>set w. \<not> isSpace c \<Longrightarrow> foldr splitter_step w (c0, acc0) = (w @ c0, acc0)"
  by (induction w) (simp_all add: splitter_step_def)

lemma surname_last_token:
  assumes "isSpace s" and "w \<noteq> []" and "\<forall>c\<in>set w. \<not> isSpace c"
  shows "surname (given @ s # w) = w"
proof -
  have w: "foldr splitter_step w ([], []) = (w, [])"
    using splitter_fold_word [OF assms(3), of "[]" "[]"] by simp
  have sw: "foldr splitter_step (s # w) ([], []) = ([], [w])"
    using assms(1,2) by (simp add: w splitter_step_def)
  obtain pre where pre: "snd (foldr splitter_step given ([], [w])) = pre @ [w]"
    using splitter_fold_suffix [of given "[]" "[w]"] by blast
  obtain cur acc where st: "foldr splitter_step given ([], [w]) = (cur, acc)"
    by (cases "foldr splitter_step given ([], [w])")
  with pre have acc: "acc = pre @ [w]" by simp
  have f: "foldr splitter_step (given @ s # w) ([], []) = (cur, pre @ [w])"
    using sw st acc by simp
  have "splitter (given @ s # w) = (if cur = [] then pre @ [w] else cur # pre @ [w])"
    by (simp add: splitter_def f del: foldr_append foldr.simps)
  then show ?thesis
    by (cases pre) (auto simp add: surname_def split: list.splits)
qed

lemma authorList_example:
  "joinAuthorsGetKey [''Jane Doe'', ''John Dew''] ''2020-01-01''
     = (''DoeDew2020'', ''Doe, Jane and Dew, John'')"
  by (simp add: joinAuthorsGetKey_def Let_def splitter_Jane splitter_John slice04_def
      removeAccents_DoeDew plus_str_def join_str_def last_elem_def)

text \<open>
  C1, as stated, at the empty author list and a date whose first character is U+00E9 (e with
  acute accent): the key is not the year, because the accents of the year are stripped with
  those of the surnames.
\<close>

theorem joinAuthorsGetKey_year_counterexample:
  "fst (joinAuthorsGetKey [] [CHR 0xE9]) \<noteq> take 4 [CHR 0xE9]"
  by (simp add: joinAuthorsGetKey_def Let_def slice04_def removeAccents_def stripAccent_def)

text \<open>
  C1, amended. The key is \<open>removeAccents\<close> applied to the surnames, concatenated in input
  order without separator, followed by the first four characters of the date. The surname of
  a name is its last whitespace-separated token: a name that ends with a whitespace character
  and a non-empty word \<open>w\<close> without whitespace has the surname \<open>w\<close>. For the empty author
  list the key is the year with its accents stripped, which is the year itself when the year
  has no accented letter (no character that \<open>stripAccent\<close> changes, in particular no
  character from U+00C0 on), and the author list is empty. For the authors Jane Doe and
  John Dew and the date 2020-01-01 the key is DoeDew2020 and the author list is
  "Doe, Jane and Dew, John".
\<close>

theorem joinAuthorsGetKey_key:
  "fst (joinAuthorsGetKey as d) = removeAccents (concat (map surname as) @ take 4 d)
   \<and> (isSpace s \<and> w \<noteq> [] \<and> (\<forall>c\<in>set w. \<not> isSpace c) \<longrightarrow> surname (given @ s # w) = w)
   \<and> fst (joinAuthorsGetKey [] d) = removeAccents (take 4 d)
   \<and> ((\<forall>c\<in>set (take 4 d). of_char c < (0xC0::nat)) \<longrightarrow> fst (joinAuthorsGetKey [] d) = take 4 d)
   \<and> ((\<forall>c\<in>set (take 4 d). stripAccent c = c) \<longrightarrow> fst (joinAuthorsGetKey [] d) = take 4 d)
   \<and> snd (joinAuthorsGetKey [] d) = []
   \<and> joinAuthorsGetKey [''Jane Doe'', ''John Dew''] ''2020-01-01''
       = (''DoeDew2020'', ''Doe, Jane and Dew, John'')"
proof -
  have k: "fst (joinAuthorsGetKey [] d) = removeAccents (take 4 d)"
    by (simp add: key_concat)
  have a: "snd (joinAuthorsGetKey [] d) = []"
    by (simp add: joinAuthorsGetKey_def)
  show ?thesis
    using k a key_concat [of as d] surname_last_token [of s w given]
      removeAccents_ascii [of "take 4 d"] removeAccents_fixed [of "take 4 d"] authorList_example
    by simp
qed

theorem joinAuthorsGetKey_key_witness:
  "surname (''Jane'' @ CHR '' '' # ''Doe'') = ''Doe''
   \<and> fst (joinAuthorsGetKey [] ''2020-01-01'') = ''2020''"
  using joinAuthorsGetKey_key [of "[]" "''2020-01-01''" "CHR '' ''" "''Doe''" "''Jane''"]
  by (auto simp add: isSpace_def)

section \<open>Objects\<close>

lemma spread_Nil: "spread p [] = p"
  by (simp add: spread_def)

lemma spread_Cons: "spread p (kv # kvs) = spread (set_prop (fst kv) (snd kv) p) kvs"
  by (simp add: spread_def)

lemma set_prop_fresh: "k \<notin> set (map fst p) \<Longrightarrow> set_prop k v p = p @ [(k, v)]"
  by (induction p) auto

lemma keys_set_prop: "k \<in> set (map fst p) \<Longrightarrow> map fst (set_prop k v p) = map fst p"
  by (induction p) (force simp add: image_iff)+

lemma get_prop_member:
  "distinct (map fst p) \<Longrightarrow> (k, v) \<in> set p \<Longrightarrow> get_prop p k = v"
  by (simp add: get_prop_def)

lemma get_prop_absent: "k \<notin> set (map fst p) \<Longrightarrow> get_prop p k = Undefined"
  by (simp add: get_prop_def map_of_eq_None_iff [THEN iffD2])

lemma get_set_prop_same: "get_prop (set_prop k v p) k = v"
  by (induction p) (auto simp add: get_prop_def)

lemma get_set_prop_other: "k' \<noteq> k \<Longrightarrow> get_prop (set_prop k v p) k' = get_prop p k'"
  by (induction p) (auto simp add: get_prop_def)

lemma set_prop_same_value:
  "distinct (map fst p) \<Longrightarrow> (k, v) \<in> set p \<Longrightarrow> set_prop k v p = p"
  by (induction p) (auto simp add: rev_image_eqI)

lemma truthy_in_keys: "truthy (get_prop p k) \<Longrightarrow> k \<in> set (map fst p)"
  using get_prop_absent [of k p] by (cases "k \<in> set (map fst p)") auto

lemma in_set_get_prop: "k \<in> set (map fst p) \<Longrightarrow> (k, get_prop p k) \<in> set p"
  by (induction p) (auto simp add: get_prop_def)

lemma delete_empty_fold:
  "distinct (map fst q) \<Longrightarrow>
   fold (\<lambda>k q. if \<not> truthy (get_prop q k) then delete_prop k q else q) ks q =
   filter (\<lambda>kv. fst kv \<in> set ks \<longrightarrow> truthy (snd kv)) q"
proof (induction ks arbitrary: q)
  case Nil
  show ?case by simp
next
  case (Cons k ks)
  let ?q' = "if \<not> truthy (get_prop q k) then delete_prop k q else q"
  have d: "distinct (map fst ?q')"
    using Cons.prems by (simp add: delete_prop_def distinct_map_filter)
  have same: "\<And>kv. kv \<in> set q \<Longrightarrow> fst kv = k \<Longrightarrow> snd kv = get_prop q k"
    using get_prop_member [OF Cons.prems] by (metis prod.collapse)
  have "filter (\<lambda>kv. fst kv \<in> set ks \<longrightarrow> truthy (snd kv)) ?q' =
        filter (\<lambda>kv. fst kv \<in> set (k # ks) \<longrightarrow> truthy (snd kv)) q"
  proof (cases "truthy (get_prop q k)")
    case True
    then show ?thesis using same by (auto intro!: filter_cong)
  next
    case False
    then show ?thesis using same by (auto simp add: delete_prop_def intro!: filter_cong)
  qed
  then show ?case using Cons.IH [OF d] by simp
qed

lemma delete_empty_filter:
  "wf_object p \<Longrightarrow> delete_empty p = filter (\<lambda>kv. truthy (snd kv)) p"
  unfolding delete_empty_def Object_keys_def wf_object_def
  by (simp add: delete_empty_fold cong: filter_cong)

section \<open>The longest key\<close>

lemma fold_max_int: "fold max (map int ns) (int a) = int (fold max ns a)"
  by (induction ns arbitrary: a) (simp_all add: of_nat_max [symmetric] max.commute)

lemma maxKeyLength_Finite: "p \<noteq> [] \<Longrightarrow> maxKeyLength p = Finite (int (maxLen p))"
proof (cases p)
  case Nil
  assume "p \<noteq> []" with Nil show ?thesis by simp
next
  case (Cons kv q)
  have "fold max (map (\<lambda>s. int (length s)) (map fst q)) (int (length (fst kv))) =
        int (fold max (map length (map fst q)) (length (fst kv)))"
    using fold_max_int [of "map length (map fst q)" "length (fst kv)"] by (simp add: comp_def)
  then show ?thesis
    by (simp add: Cons maxKeyLength_def Math_max_def Object_keys_def maxLen_def)
qed

lemma fold_max_ge: "a \<le> fold max ns (a::nat)"
  by (induction ns arbitrary: a) (auto intro: order_trans [OF max.cobounded2])

lemma fold_max_member_le: "n \<in> set ns \<Longrightarrow> n \<le> fold max ns (a::nat)"
proof (induction ns arbitrary: a)
  case Nil
  then show ?case by simp
next
  case (Cons m ns)
  show ?case
  proof (cases "n = m")
    case True
    have "m \<le> max m a" by simp
    also have "\<dots> \<le> fold max ns (max m a)" by (rule fold_max_ge)
    finally show ?thesis using True by simp
  next
    case False
    with Cons show ?thesis by simp
  qed
qed

lemma fold_max_attained: "fold max ns (a::nat) \<in> set (a # ns)"
proof (induction ns arbitrary: a)
  case Nil
  show ?case by simp
next
  case (Cons m ns)
  define x where "x = max m a"
  have "fold max ns x \<in> set (x # ns)" by (rule Cons.IH)
  moreover have "x = m \<or> x = a" by (auto simp add: x_def max_def)
  moreover have "fold max (m # ns) a = fold max ns x" by (simp add: x_def)
  ultimately show ?case by auto
qed

lemma length_le_maxLen: "k \<in> set (Object_keys p) \<Longrightarrow> length k \<le> maxLen p"
  unfolding maxLen_def by (rule fold_max_member_le) simp

lemma maxLen_attained: "p \<noteq> [] \<Longrightarrow> maxLen p \<in> length ` set (Object_keys p)"
proof -
  assume "p \<noteq> []"
  then obtain kv q where p: "p = kv # q" by (cases p) auto
  have "fold max (map length (map fst q)) (length (fst kv)) \<in> set (length (fst kv) # map length (map fst q))"
    by (rule fold_max_attained)
  then show ?thesis by (simp add: p maxLen_def Object_keys_def image_image)
qed

section \<open>The result of \<open>formatEntry\<close>\<close>

lemma repeat_space: "repeat '' '' (Finite (int n)) = Inr (replicate n space)"
proof -
  have "concat (replicate n '' '') = replicate n space"
    by (induction n) (simp_all add: space_def)
  then show ?thesis by (simp add: repeat_def)
qed

lemma collect_map_Inr: "(\<And>x. x \<in> set xs \<Longrightarrow> f x = Inr (g x)) \<Longrightarrow> collect (map f xs) = Inr (map g xs)"
  by (induction xs) simp_all

lemma truthy_nonempty: "truthy (get_prop p k) \<Longrightarrow> p \<noteq> []"
  using truthy_in_keys [of p k] by auto

lemma pad_abstract_typed: "abstract_typed p \<Longrightarrow> pad_abstract p = Inr (padded p)"
proof (cases "get_prop p ''abstract''")
  case (Str a)
  show ?thesis
  proof (cases "a = []")
    case True
    then show ?thesis by (simp add: pad_abstract_def padded_def Str)
  next
    case False
    then have "truthy (get_prop p ''abstract'')" by (simp add: Str)
    then have "p \<noteq> []" by (rule truthy_nonempty)
    then have "repeat '' '' (plus_num (maxKeyLength p) 6) = Inr (replicate (maxLen p + 6) space)"
      using repeat_space [of "maxLen p + 6"] by (simp add: maxKeyLength_Finite plus_num_def)
    then show ?thesis
      using False by (simp add: pad_abstract_def padded_def Str)
  qed
qed (simp_all add: pad_abstract_def padded_def abstract_typed_def)

lemma keys_padded: "Object_keys (padded p) = Object_keys p"
proof (cases "get_prop p ''abstract''")
  case (Str a)
  show ?thesis
  proof (cases "a = []")
    case True
    then show ?thesis by (simp add: padded_def Str)
  next
    case False
    then have "truthy (get_prop p ''abstract'')" by (simp add: Str)
    then have "''abstract'' \<in> set (map fst p)" by (rule truthy_in_keys)
    then show ?thesis using False by (simp add: padded_def Str Object_keys_def keys_set_prop)
  qed
qed (simp_all add: padded_def)

lemma fragment_line:
  assumes "k \<in> set (Object_keys p)"
  shows "fragment (maxKeyLength p) q k = Inr (line (maxLen p) k (get_prop q k))"
proof -
  from assms have ne: "p \<noteq> []" by (auto simp add: Object_keys_def)
  have le: "length k \<le> maxLen p" using assms by (rule length_le_maxLen)
  have "minus_num (maxKeyLength p) (int (length k)) = Finite (int (maxLen p - length k))"
    using le by (simp add: maxKeyLength_Finite [OF ne] minus_num_def)
  then show ?thesis by (simp add: fragment_def repeat_space line_def)
qed

lemma formatEntry_typed:
  assumes "abstract_typed p"
  shows "formatEntry t p key =
    (Inr (header t key # map (\<lambda>k. line (maxLen p) k (get_prop (padded p) k)) (Object_keys p) @
          [Leaf (Str ''}'')]),
     padded p)"
proof -
  have "collect (map (fragment (maxKeyLength p) (padded p)) (Object_keys p)) =
        Inr (map (\<lambda>k. line (maxLen p) k (get_prop (padded p) k)) (Object_keys p))"
    by (rule collect_map_Inr) (rule fragment_line)
  then show ?thesis
    by (simp add: formatEntry_def Let_def pad_abstract_typed [OF assms] keys_padded header_def)
qed

lemma node_text_line:
  "node_text (line m k v) =
     ''  '' @ k @ replicate (m - length k) space @ '' = {'' @ val_text v @ ''},'' @ [newline]"
  by (simp add: line_def)

lemma formatEntry_untyped:
  "\<not> abstract_typed p \<Longrightarrow> truthy (get_prop p ''abstract'') \<Longrightarrow> formatEntry t p key = (Inl TypeError, p)"
proof -
  assume a: "\<not> abstract_typed p" and t: "truthy (get_prop p ''abstract'')"
  from t have "p \<noteq> []" by (rule truthy_nonempty)
  then have "repeat '' '' (plus_num (maxKeyLength p) 6) = Inr (replicate (maxLen p + 6) space)"
    using repeat_space [of "maxLen p + 6"] by (simp add: maxKeyLength_Finite plus_num_def)
  then show ?thesis using a t
    by (cases "get_prop p ''abstract''")
       (simp_all add: formatEntry_def pad_abstract_def abstract_typed_def)
qed

section \<open>The assembled pairing\<close>

lemma assemble_list:
  "assemble entry settings =
    [(''author'', Str (snd (joinAuthorsGetKey (authors entry) (date entry)))),
     (if goodMode settings then ''date'' else ''year'', Str (dateOrYear entry settings)),
     (''title'', Str (title entry)),
     (if goodMode settings then ''journaltitle'' else ''journal'', journal' entry settings),
     (''series'', if goodMode settings then opt (series entry) else Null),
     (''maintitle'', opt (mainTitle entry)),
     (''subtitle'', opt (subTitle entry)),
     (''volume'', opt (volume entry)),
     (''number'', opt (number entry)),
     (''publisher'', opt (publisher entry)),
     (''location'', opt (location entry)),
     (''isbn'', opt (ISBN entry)),
     (''pagetotal'', opt (pageTotal entry))] @
    (if present (id' entry)
     then [(''eprint'', Elem (Anchor (absURL entry) (plus_str (id' entry)))),
           (if goodMode settings then ''eprinttype'' else ''archiveprefix'', Str ''arXiv''),
           (if goodMode settings then ''eprintclass'' else ''primaryclass'',
            if includePrimaryCategory settings then opt (primaryCategory entry) else Null),
           (''version'',
            if goodMode settings \<and> includeVersion settings then opt (version entry) else Null),
           (''url'', if goodMode settings then Null else Str (absURL entry))]
     else []) @
    (if goodMode settings
     then [(''pubstate'', opt (pubstate entry)), (''howpublished'', journalRefLink entry)]
     else [(''note'',
            if present (doi entry) \<or> present (journalRef entry)
            then journalRefLink entry else Str ''Preprint'')]) @
    [(''doi'', doiLink entry),
     (''file'', if includeFile settings then fileLink entry settings else Null),
     (''comment'', opt (comment entry)),
     (''abstract'', if includeAbstract settings then opt (abstract entry) else Null)]"
proof (cases "goodMode settings")
  case True
  then show ?thesis
    by (cases "present (id' entry)") (simp_all add: assemble_def Let_def spread_Nil spread_Cons)
next
  case False
  then show ?thesis
    by (cases "present (id' entry)") (simp_all add: assemble_def Let_def spread_Nil spread_Cons)
qed

lemma keys_assemble:
  "map fst (assemble entry settings) =
    [''author'', if goodMode settings then ''date'' else ''year'', ''title'',
     if goodMode settings then ''journaltitle'' else ''journal'', ''series'', ''maintitle'',
     ''subtitle'', ''volume'', ''number'', ''publisher'', ''location'', ''isbn'', ''pagetotal''] @
    (if present (id' entry)
     then [''eprint'', if goodMode settings then ''eprinttype'' else ''archiveprefix'',
           if goodMode settings then ''eprintclass'' else ''primaryclass'', ''version'', ''url'']
     else []) @
    (if goodMode settings then [''pubstate'', ''howpublished''] else [''note'']) @
    [''doi'', ''file'', ''comment'', ''abstract'']"
  by (simp add: assemble_list)

lemma wf_assemble: "wf_object (assemble entry settings)"
  unfolding wf_object_def keys_assemble
  by (cases "goodMode settings"; cases "present (id' entry)") simp_all

lemma get_prop_filter:
  assumes "distinct (map fst p)"
  shows "get_prop (filter (\<lambda>kv. truthy (snd kv)) p) k =
         (if truthy (get_prop p k) then get_prop p k else Undefined)"
proof (cases "k \<in> set (map fst p)")
  case False
  then have "k \<notin> set (map fst (filter (\<lambda>kv. truthy (snd kv)) p))" by auto
  then show ?thesis using False by (simp add: get_prop_absent)
next
  case True
  then have m: "(k, get_prop p k) \<in> set p" by (rule in_set_get_prop)
  have d: "distinct (map fst (filter (\<lambda>kv. truthy (snd kv)) p))"
    using assms by (rule distinct_map_filter)
  show ?thesis
  proof (cases "truthy (get_prop p k)")
    case True
    with m have "(k, get_prop p k) \<in> set (filter (\<lambda>kv. truthy (snd kv)) p)" by simp
    then show ?thesis using True get_prop_member [OF d] by simp
  next
    case False
    have "k \<notin> set (map fst (filter (\<lambda>kv. truthy (snd kv)) p))"
    proof
      assume "k \<in> set (map fst (filter (\<lambda>kv. truthy (snd kv)) p))"
      then obtain v where v: "(k, v) \<in> set p" and t: "truthy v" by auto
      from get_prop_member [OF assms v] t False show False by simp
    qed
    then show ?thesis using False by (simp add: get_prop_absent)
  qed
qed

lemma built_pairing_filter:
  "built_pairing (buildPairing entry settings) =
     filter (\<lambda>kv. truthy (snd kv)) (assemble entry settings)"
  by (simp add: buildPairing_def delete_empty_filter wf_assemble)

lemma get_built:
  "get_prop (built_pairing (buildPairing entry settings)) k =
     (if truthy (get_prop (assemble entry settings) k)
      then get_prop (assemble entry settings) k else Undefined)"
  using wf_assemble [of entry settings]
  by (simp only: built_pairing_filter wf_object_def get_prop_filter)

lemma key_built:
  "k \<in> set (Object_keys (built_pairing (buildPairing entry settings))) \<longleftrightarrow>
   truthy (get_prop (assemble entry settings) k)"
proof
  assume "k \<in> set (Object_keys (built_pairing (buildPairing entry settings)))"
  then obtain v where "(k, v) \<in> set (assemble entry settings)" and "truthy v"
    by (auto simp add: Object_keys_def built_pairing_filter)
  then show "truthy (get_prop (assemble entry settings) k)"
    using get_prop_member [of "assemble entry settings" k v] wf_assemble [of entry settings]
    by (simp add: wf_object_def)
next
  assume t: "truthy (get_prop (assemble entry settings) k)"
  then have "k \<in> set (map fst (assemble entry settings))" by (rule truthy_in_keys)
  then have "(k, get_prop (assemble entry settings) k) \<in> set (assemble entry settings)"
    by (rule in_set_get_prop)
  with t have "(k, get_prop (assemble entry settings) k)
      \<in> set (built_pairing (buildPairing entry settings))"
    by (simp add: built_pairing_filter)
  then show "k \<in> set (Object_keys (built_pairing (buildPairing entry settings)))"
    by (force simp add: Object_keys_def)
qed


section \<open>The fields that depend on the mode\<close>

lemma journalRefLink_truthy: "truthy (journalRefLink entry) = present (journalRef entry)"
  by (simp add: journalRefLink_def)

lemma get_note_bad:
  "\<not> goodMode settings \<Longrightarrow>
   get_prop (assemble entry settings) ''note'' =
     (if present (doi entry) \<or> present (journalRef entry)
      then journalRefLink entry else Str ''Preprint'')"
  by (cases "present (id' entry)") (simp_all add: assemble_list get_prop_def)

lemma get_pubstate_good:
  "goodMode settings \<Longrightarrow> get_prop (assemble entry settings) ''pubstate'' = opt (pubstate entry)"
  by (cases "present (id' entry)") (simp_all add: assemble_list get_prop_def)

lemma get_howpublished_good:
  "goodMode settings \<Longrightarrow>
   get_prop (assemble entry settings) ''howpublished'' = journalRefLink entry"
  by (cases "present (id' entry)") (simp_all add: assemble_list get_prop_def)

lemma keys_assemble_tail:
  "\<exists>pre. Object_keys (assemble entry settings) =
     pre @ (if goodMode settings then [''pubstate'', ''howpublished''] else [''note'']) @
     [''doi'', ''file'', ''comment'', ''abstract'']"
  unfolding Object_keys_def keys_assemble
  by (metis append.assoc)

text \<open>
  C5. In bad mode (\<open>mode\<close> is not \<open>biblatex\<close>) the pairing that \<open>buildPairing\<close> assembles has
  the field \<open>note\<close>, placed after the fields before it and followed by \<open>doi\<close>, \<open>file\<close>,
  \<open>comment\<close> and \<open>abstract\<close>; its value is the flagged journalRef (\<open>journalRefLink\<close>, the
  \<open>abbr\<close> element around the journalRef, \<open>null\<close> without one) if the entry has a doi or a
  journalRef, and the string Preprint if it has neither; there is no \<open>pubstate\<close> and no
  \<open>howpublished\<close>. In good mode the fields \<open>pubstate\<close> and \<open>howpublished\<close> stand there
  instead, \<open>howpublished\<close> with the flagged journalRef, and there is no \<open>note\<close>. In the
  returned pairing, from which the empty values are deleted, \<open>note\<close> is the flagged
  journalRef when the entry has a journalRef, absent when it has only a doi, and Preprint
  otherwise.
\<close>

theorem buildPairing_mode_fields:
  "(\<not> goodMode settings \<longrightarrow>
      get_prop (assemble entry settings) ''note'' =
        (if present (doi entry) \<or> present (journalRef entry)
         then journalRefLink entry else Str ''Preprint'')
      \<and> (\<exists>pre. Object_keys (assemble entry settings) =
            pre @ [''note''] @ [''doi'', ''file'', ''comment'', ''abstract''])
      \<and> ''pubstate'' \<notin> set (Object_keys (assemble entry settings))
      \<and> ''howpublished'' \<notin> set (Object_keys (assemble entry settings))
      \<and> get_prop (built_pairing (buildPairing entry settings)) ''note'' =
        (if present (journalRef entry) then Elem (Abbr abbr_title (plus_str (journalRef entry)))
         else if present (doi entry) then Undefined else Str ''Preprint''))
   \<and> (goodMode settings \<longrightarrow>
      get_prop (assemble entry settings) ''pubstate'' = opt (pubstate entry)
      \<and> get_prop (assemble entry settings) ''howpublished'' = journalRefLink entry
      \<and> (\<exists>pre. Object_keys (assemble entry settings) =
            pre @ [''pubstate'', ''howpublished''] @ [''doi'', ''file'', ''comment'', ''abstract''])
      \<and> ''note'' \<notin> set (Object_keys (assemble entry settings))
      \<and> get_prop (built_pairing (buildPairing entry settings)) ''howpublished'' =
        (if present (journalRef entry) then Elem (Abbr abbr_title (plus_str (journalRef entry)))
         else Undefined))"
proof (cases "goodMode settings")
  case True
  have k: "''note'' \<notin> set (Object_keys (assemble entry settings))"
    using True unfolding Object_keys_def keys_assemble by simp
  have h: "get_prop (built_pairing (buildPairing entry settings)) ''howpublished'' =
        (if present (journalRef entry) then Elem (Abbr abbr_title (plus_str (journalRef entry)))
         else Undefined)"
    by (simp add: get_built get_howpublished_good [OF True] journalRefLink_truthy)
       (simp add: journalRefLink_def)
  show ?thesis
    using True k h get_pubstate_good [OF True] get_howpublished_good [OF True]
      keys_assemble_tail [of entry settings]
    by simp
next
  case False
  have k: "''pubstate'' \<notin> set (Object_keys (assemble entry settings))"
      "''howpublished'' \<notin> set (Object_keys (assemble entry settings))"
    using False unfolding Object_keys_def keys_assemble by simp_all
  have n: "get_prop (built_pairing (buildPairing entry settings)) ''note'' =
        (if present (journalRef entry) then Elem (Abbr abbr_title (plus_str (journalRef entry)))
         else if present (doi entry) then Undefined else Str ''Preprint'')"
    by (simp add: get_built get_note_bad [OF False] journalRefLink_truthy)
       (simp add: journalRefLink_def)
  show ?thesis
    using False k n get_note_bad [OF False] keys_assemble_tail [of entry settings]
    by simp
qed

lemma example_bad: "\<not> goodMode example_settings"
  by (simp add: goodMode_def example_settings_def)

theorem buildPairing_mode_fields_witness:
  "get_prop (built_pairing (buildPairing example_entry example_settings)) ''note'' = Str ''Preprint''
   \<and> get_prop (built_pairing (buildPairing example_entry (example_settings \<lparr> mode := ''biblatex'' \<rparr>)))
        ''howpublished'' = Undefined"
  using buildPairing_mode_fields [of example_settings example_entry]
    buildPairing_mode_fields [of "example_settings \<lparr> mode := ''biblatex'' \<rparr>" example_entry]
  by (simp add: goodMode_def example_settings_def example_entry_def present_def opt_def)

section \<open>Rendering a built pairing\<close>

lemma get_abstract_assemble:
  "get_prop (assemble entry settings) ''abstract'' =
     (if includeAbstract settings then opt (abstract entry) else Null)"
  by (cases "goodMode settings"; cases "present (id' entry)")
     (simp_all add: assemble_list get_prop_def)

lemma abstract_typed_built: "abstract_typed (built_pairing (buildPairing entry settings))"
  by (simp add: abstract_typed_def get_built get_abstract_assemble opt_def split: option.splits)

lemma get_prop_padded_other: "k \<noteq> ''abstract'' \<Longrightarrow> get_prop (padded p) k = get_prop p k"
  by (simp add: padded_def get_set_prop_other split: val.splits)

lemma formatEntry_built:
  "formatEntry (built_type (buildPairing entry settings))
     (built_pairing (buildPairing entry settings)) (built_key (buildPairing entry settings)) =
   (Inr (header (type entry) (fst (joinAuthorsGetKey (authors entry) (date entry))) #
         map (\<lambda>k. line (maxLen (built_pairing (buildPairing entry settings))) k
                (get_prop (padded (built_pairing (buildPairing entry settings))) k))
           (Object_keys (built_pairing (buildPairing entry settings))) @
         [Leaf (Str ''}'')]),
    padded (built_pairing (buildPairing entry settings)))"
  using formatEntry_typed [OF abstract_typed_built [of entry settings]]
  by (simp add: buildPairing_def)

section \<open>The journal and the series\<close>

lemma get_journaltitle_good:
  "goodMode settings \<Longrightarrow>
   get_prop (assemble entry settings) ''journaltitle'' = journal' entry settings"
  by (cases "present (id' entry)") (simp_all add: assemble_list get_prop_def)

lemma get_journal_bad:
  "\<not> goodMode settings \<Longrightarrow>
   get_prop (assemble entry settings) ''journal'' = journal' entry settings"
  by (cases "present (id' entry)") (simp_all add: assemble_list get_prop_def)

lemma get_series:
  "get_prop (assemble entry settings) ''series'' =
     (if goodMode settings then opt (series entry) else Null)"
  by (cases "goodMode settings"; cases "present (id' entry)")
     (simp_all add: assemble_list get_prop_def)

lemma journal_key_bad:
  "\<not> goodMode settings \<Longrightarrow> ''journaltitle'' \<notin> set (map fst (assemble entry settings))"
  unfolding keys_assemble by simp

lemma journal_key_good:
  "goodMode settings \<Longrightarrow> ''journal'' \<notin> set (map fst (assemble entry settings))"
  unfolding keys_assemble by simp

lemma absent_built:
  "k \<notin> set (map fst (assemble entry settings)) \<Longrightarrow>
   k \<notin> set (Object_keys (built_pairing (buildPairing entry settings)))"
  by (auto simp add: Object_keys_def built_pairing_filter)

text \<open>
  C6. For an entry with a non-empty journal \<open>j\<close>, the returned pairing holds the journal
  under \<open>journaltitle\<close> in good mode, where it is \<open>j\<close> and there is no field \<open>journal\<close>, and
  under \<open>journal\<close> in bad mode, where there is no field \<open>journaltitle\<close> and the value is \<open>j\<close>
  followed, if the entry has a non-empty series, by the series in parentheses; the renderer
  emits the line of that field with that value. Journal "Annals of Math" with series
  "2nd series" gives "Annals of Math (2nd series)" in bad mode. The field \<open>series\<close> is in the
  returned pairing only in good mode, when the entry has a non-empty series.
\<close>

theorem buildPairing_journal:
  "(journal entry = Some j \<and> j \<noteq> [] \<longrightarrow>
      (goodMode settings \<longrightarrow>
         get_prop (built_pairing (buildPairing entry settings)) ''journaltitle'' = Str j
         \<and> ''journal'' \<notin> set (Object_keys (built_pairing (buildPairing entry settings))))
      \<and> (\<not> goodMode settings \<longrightarrow>
         get_prop (built_pairing (buildPairing entry settings)) ''journal'' =
           Str (j @ (case series entry of
                       None \<Rightarrow> []
                     | Some sr \<Rightarrow> if sr = [] then [] else '' ('' @ sr @ '')''))
         \<and> ''journaltitle'' \<notin> set (Object_keys (built_pairing (buildPairing entry settings)))
         \<and> (\<exists>nodes p'.
              formatEntry (built_type (buildPairing entry settings))
                (built_pairing (buildPairing entry settings))
                (built_key (buildPairing entry settings)) = (Inr nodes, p')
              \<and> line (maxLen (built_pairing (buildPairing entry settings))) ''journal''
                   (Str (j @ (case series entry of
                                None \<Rightarrow> []
                              | Some sr \<Rightarrow> if sr = [] then [] else '' ('' @ sr @ '')'')))
                 \<in> set nodes)))
   \<and> (journal entry = Some ''Annals of Math'' \<and> series entry = Some ''2nd series''
        \<and> \<not> goodMode settings \<longrightarrow>
        get_prop (built_pairing (buildPairing entry settings)) ''journal'' =
          Str ''Annals of Math (2nd series)'')
   \<and> (''series'' \<in> set (Object_keys (built_pairing (buildPairing entry settings))) \<longleftrightarrow>
        goodMode settings \<and> present (series entry))
   \<and> (goodMode settings \<and> present (series entry) \<longrightarrow>
        get_prop (built_pairing (buildPairing entry settings)) ''series'' = opt (series entry))"
proof -
  let ?b = "built_pairing (buildPairing entry settings)"
  let ?v = "Str (j @ (case series entry of
                       None \<Rightarrow> []
                     | Some sr \<Rightarrow> if sr = [] then [] else '' ('' @ sr @ '')''))"
  have good: "get_prop ?b ''journaltitle'' = Str j \<and> ''journal'' \<notin> set (Object_keys ?b)"
    if "journal entry = Some j" "j \<noteq> []" "goodMode settings"
    using that absent_built [OF journal_key_good [OF that(3)], of entry]
    by (simp add: get_built get_journaltitle_good journal'_def present_def opt_def plus_str_def)
  have bad_v: "get_prop ?b ''journal'' = ?v"
    if "journal entry = Some j" "j \<noteq> []" "\<not> goodMode settings"
    using that
    by (simp add: get_built get_journal_bad journal'_def present_def opt_def plus_str_def
        split: option.splits)
  have bad_k: "''journaltitle'' \<notin> set (Object_keys ?b)" if "\<not> goodMode settings"
    using absent_built [OF journal_key_bad [OF that], of entry] by simp
  have bad_l: "\<exists>nodes p'.
      formatEntry (built_type (buildPairing entry settings)) ?b
        (built_key (buildPairing entry settings)) = (Inr nodes, p')
      \<and> line (maxLen ?b) ''journal'' ?v \<in> set nodes"
    if "journal entry = Some j" "j \<noteq> []" "\<not> goodMode settings"
  proof -
    have "truthy (get_prop ?b ''journal'')" using that by (simp add: bad_v)
    then have "''journal'' \<in> set (Object_keys ?b)"
      using truthy_in_keys [of ?b "''journal''"] by (simp add: Object_keys_def)
    then have "line (maxLen ?b) ''journal'' (get_prop (padded ?b) ''journal'')
        \<in> (\<lambda>k. line (maxLen ?b) k (get_prop (padded ?b) k)) ` set (Object_keys ?b)"
      by (rule imageI)
    then show ?thesis
      using that by (simp add: formatEntry_built get_prop_padded_other bad_v)
  qed
  have ex: "get_prop ?b ''journal'' = Str ''Annals of Math (2nd series)''"
    if "journal entry = Some ''Annals of Math''" "series entry = Some ''2nd series''"
       "\<not> goodMode settings"
    using that
    by (simp add: get_built get_journal_bad journal'_def present_def opt_def plus_str_def)
  have sk: "''series'' \<in> set (Object_keys ?b) \<longleftrightarrow> goodMode settings \<and> present (series entry)"
    by (simp add: key_built get_series present_def)
  have sv: "get_prop ?b ''series'' = opt (series entry)"
    if "goodMode settings \<and> present (series entry)"
    using that by (simp add: get_built get_series present_def)
  show ?thesis
    using good bad_v bad_k bad_l ex sk sv by blast
qed

theorem buildPairing_journal_witness:
  "get_prop (built_pairing (buildPairing example_entry example_settings)) ''journal'' =
     Str ''Annals of Math (2nd series)''
   \<and> ''series'' \<notin> set (Object_keys (built_pairing (buildPairing example_entry example_settings)))
   \<and> get_prop (built_pairing (buildPairing example_entry
        (example_settings \<lparr> mode := ''biblatex'' \<rparr>))) ''journaltitle'' = Str ''Annals of Math''"
  using buildPairing_journal [of example_entry "''Annals of Math''" example_settings]
    buildPairing_journal [of example_entry "''Annals of Math''"
      "example_settings \<lparr> mode := ''biblatex'' \<rparr>"]
  by (simp add: goodMode_def example_settings_def example_entry_def)

section \<open>The download command\<close>

text \<open>
  C7. \<open>buildPairing\<close> returns a download command exactly when \<open>includeFile\<close> is on and the
  entry has a non-empty \<open>pdfLink\<close>. The command is the PowerShell one when \<open>wgetPowershell\<close>
  is set and the \<open>wget\<close> one otherwise, made of the \<open>pdfLink\<close>, the \<open>fileFolder\<close> and the
  file name, which is the key followed by \<open>.pdf\<close>, after the first character of the key and
  a slash when \<open>filePrefix\<close> is set. With \<open>includeFile\<close> on, \<open>wgetPowershell\<close> off, the
  \<open>pdfLink\<close> \<open>http://x/y.pdf\<close> and the folder \<open>papers\<close> the command is
  \<open>wget --user-agent='Mozilla' http://x/y.pdf -O papers/\<close> followed by the file name.
\<close>

theorem buildPairing_wget:
  "(built_wget (buildPairing entry settings) \<noteq> None \<longleftrightarrow>
      includeFile settings \<and> present (pdfLink entry))
   \<and> (includeFile settings \<and> pdfLink entry = Some l \<and> l \<noteq> [] \<longrightarrow>
        built_wget (buildPairing entry settings) =
          Some (if wgetPowershell settings
                then ''pwsh -Command Invoke-WebRequest '' @ l @ '' -OutFile '' @
                     fileFolder settings @ [CHR 0x5C] @ fileName entry settings
                else ''wget --user-agent='Mozilla' '' @ l @ '' -O '' @
                     fileFolder settings @ ''/'' @ fileName entry settings))
   \<and> fileName entry settings =
        (if filePrefix settings
         then (case built_key (buildPairing entry settings) of
                 [] \<Rightarrow> ''undefined'' | c # cs \<Rightarrow> [c]) @ ''/''
         else []) @ built_key (buildPairing entry settings) @ ''.pdf''
   \<and> (includeFile settings \<and> \<not> wgetPowershell settings
        \<and> pdfLink entry = Some ''http://x/y.pdf'' \<and> fileFolder settings = ''papers'' \<longrightarrow>
        built_wget (buildPairing entry settings) =
          Some (''wget --user-agent='Mozilla' http://x/y.pdf -O papers/'' @
                fileName entry settings))"
  by (simp add: buildPairing_def wget_def fileName_def present_def opt_def plus_str_def
      head_char_def Let_def split: list.splits)

theorem buildPairing_wget_witness:
  "built_wget (buildPairing example_entry example_settings) =
     Some ''wget --user-agent='Mozilla' http://x/y.pdf -O papers/DoeDew2020.pdf''"
proof -
  have f: "fileName example_entry example_settings = ''DoeDew2020.pdf''"
    by (simp add: fileName_def example_entry_def example_settings_def authorList_example)
  have h: "includeFile example_settings \<and> \<not> wgetPowershell example_settings
      \<and> pdfLink example_entry = Some ''http://x/y.pdf''
      \<and> fileFolder example_settings = ''papers''"
    by (simp add: example_entry_def example_settings_def)
  from buildPairing_wget [of example_entry example_settings "''http://x/y.pdf''"] h
  have "built_wget (buildPairing example_entry example_settings) =
          Some (''wget --user-agent='Mozilla' http://x/y.pdf -O papers/'' @
                fileName example_entry example_settings)"
    by blast
  then show ?thesis by (simp add: f)
qed

section \<open>The text of a truthy value\<close>













lemma replace_newlines_empty: "replace_newlines a (c # r) = [] \<longleftrightarrow> a = []"
  by (cases a) (simp_all add: replace_newlines_def)


lemma map_keys_pairs:
  "distinct (map fst q) \<Longrightarrow>
   map (\<lambda>k. f k (get_prop q k)) (map fst q) = map (\<lambda>kv. f (fst kv) (snd kv)) q"
  by (auto simp add: get_prop_member)


section \<open>Alignment\<close>

lemma line_prefix:
  assumes "length k \<le> m"
  shows "take (2 + m + 1) (node_text (line m k v)) = ''  '' @ k @ replicate (m - length k) space @ '' ''"
    and "node_text (line m k v) ! (2 + m + 1) = CHR ''=''"
proof -
  let ?pre = "''  '' @ k @ replicate (m - length k) space @ '' ''"
  have l: "length ?pre = 2 + m + 1" using assms by simp
  have t: "node_text (line m k v) = ?pre @ (CHR ''='' # '' {'' @ val_text v @ ''},'' @ [newline])"
    by (simp add: node_text_line)
  show "take (2 + m + 1) (node_text (line m k v)) = ?pre"
    unfolding t using l by (metis append_eq_conv_conj)
  show "node_text (line m k v) ! (2 + m + 1) = CHR ''=''"
    unfolding t using l by (metis nth_append_length)
qed

text \<open>
  C3. For a non-empty pairing whose \<open>abstract\<close>, if any, is a string, \<open>formatEntry\<close> returns
  the header \<open>@type{key,\<close>, then one fragment for each key in the order of the keys, then the
  closing brace. The text of the fragment of a key \<open>k\<close> is two spaces, \<open>k\<close>, spaces up to the
  greatest key length \<open>maxLen p\<close>, then \<open> = {\<close>, the value and \<open>},\<close> with a line break; so
  the \<open>=\<close> sign of every fragment is preceded by \<open>2 + maxLen p + 1\<close> characters. For keys
  of lengths 3, 7 and 10 every \<open>=\<close> sign is preceded by \<open>2 + 10 + 1\<close> characters.
\<close>

theorem formatEntry_aligned:
  assumes "p \<noteq> []" and "abstract_typed p"
  shows "formatEntry t p key =
      (Inr (header t key #
            map (\<lambda>k. line (maxLen p) k (get_prop (padded p) k)) (Object_keys p) @
            [Leaf (Str ''}'')]),
       padded p)
    \<and> node_text (header t key) = ''@'' @ t @ ''{'' @ key @ '','' @ [newline]
    \<and> maxLen p \<in> length ` set (Object_keys p)
    \<and> (\<forall>k\<in>set (Object_keys p). length k \<le> maxLen p
          \<and> node_text (line (maxLen p) k (get_prop (padded p) k)) =
              ''  '' @ k @ replicate (maxLen p - length k) space @ '' = {'' @
              val_text (get_prop (padded p) k) @ ''},'' @ [newline]
          \<and> take (2 + maxLen p + 1) (node_text (line (maxLen p) k (get_prop (padded p) k))) =
              ''  '' @ k @ replicate (maxLen p - length k) space @ '' ''
          \<and> node_text (line (maxLen p) k (get_prop (padded p) k)) ! (2 + maxLen p + 1) = CHR ''='')
    \<and> (length ` set (Object_keys p) = {3, 7, 10} \<longrightarrow>
          (\<forall>k\<in>set (Object_keys p).
             node_text (line (maxLen p) k (get_prop (padded p) k)) ! (2 + 10 + 1) = CHR ''=''))"
proof -
  have m: "maxLen p \<in> length ` set (Object_keys p)" using assms(1) by (rule maxLen_attained)
  have le: "length k \<le> maxLen p" if "k \<in> set (Object_keys p)" for k
    using that by (rule length_le_maxLen)
  have ten: "maxLen p = 10" if "length ` set (Object_keys p) = {3, 7, 10}"
  proof -
    from m that have a: "maxLen p = 3 \<or> maxLen p = 7 \<or> maxLen p = 10" by simp
    from that have "10 \<in> length ` set (Object_keys p)" by simp
    then obtain k where "k \<in> set (Object_keys p)" "length k = 10" by auto
    then show ?thesis using a le [of k] by auto
  qed
  have c1: "formatEntry t p key =
      (Inr (header t key #
            map (\<lambda>k. line (maxLen p) k (get_prop (padded p) k)) (Object_keys p) @
            [Leaf (Str ''}'')]),
       padded p)"
    using assms(2) by (rule formatEntry_typed)
  have c2: "node_text (header t key) = ''@'' @ t @ ''{'' @ key @ '','' @ [newline]"
    by (simp add: header_def)
  have c4: "\<forall>k\<in>set (Object_keys p). length k \<le> maxLen p
          \<and> node_text (line (maxLen p) k (get_prop (padded p) k)) =
              ''  '' @ k @ replicate (maxLen p - length k) space @ '' = {'' @
              val_text (get_prop (padded p) k) @ ''},'' @ [newline]
          \<and> take (2 + maxLen p + 1) (node_text (line (maxLen p) k (get_prop (padded p) k))) =
              ''  '' @ k @ replicate (maxLen p - length k) space @ '' ''
          \<and> node_text (line (maxLen p) k (get_prop (padded p) k)) ! (2 + maxLen p + 1) = CHR ''=''"
  proof
    fix k assume k: "k \<in> set (Object_keys p)"
    show "length k \<le> maxLen p
          \<and> node_text (line (maxLen p) k (get_prop (padded p) k)) =
              ''  '' @ k @ replicate (maxLen p - length k) space @ '' = {'' @
              val_text (get_prop (padded p) k) @ ''},'' @ [newline]
          \<and> take (2 + maxLen p + 1) (node_text (line (maxLen p) k (get_prop (padded p) k))) =
              ''  '' @ k @ replicate (maxLen p - length k) space @ '' ''
          \<and> node_text (line (maxLen p) k (get_prop (padded p) k)) ! (2 + maxLen p + 1) = CHR ''=''"
      using le [OF k] node_text_line [of "maxLen p" k "get_prop (padded p) k"]
        line_prefix [OF le [OF k], of "get_prop (padded p) k"]
      by blast
  qed
  have c5: "length ` set (Object_keys p) = {3, 7, 10} \<longrightarrow>
          (\<forall>k\<in>set (Object_keys p).
             node_text (line (maxLen p) k (get_prop (padded p) k)) ! (2 + 10 + 1) = CHR ''='')"
  proof
    assume a: "length ` set (Object_keys p) = {3, 7, 10}"
    show "\<forall>k\<in>set (Object_keys p).
             node_text (line (maxLen p) k (get_prop (padded p) k)) ! (2 + 10 + 1) = CHR ''=''"
    proof
      fix k assume "k \<in> set (Object_keys p)"
      with c4 have "node_text (line (maxLen p) k (get_prop (padded p) k)) ! (2 + maxLen p + 1)
          = CHR ''=''"
        by blast
      then show "node_text (line (maxLen p) k (get_prop (padded p) k)) ! (2 + 10 + 1) = CHR ''=''"
        by (simp only: ten [OF a])
    qed
  qed
  from c1 c2 m c4 c5 show ?thesis by blast
qed

theorem formatEntry_aligned_witness:
  "fst (formatEntry ''article''
          [(''doi'', Str ''10.1/x''), (''comment'', Str ''read''), (''eprinttype'', Str ''arXiv'')]
          ''Doe2020'') =
     Inr [header ''article'' ''Doe2020'',
          line 10 ''doi'' (Str ''10.1/x''),
          line 10 ''comment'' (Str ''read''),
          line 10 ''eprinttype'' (Str ''arXiv''),
          Leaf (Str ''}'')]
   \<and> node_text (line 10 ''doi'' (Str ''10.1/x'')) ! 13 = CHR ''=''
   \<and> node_text (line 10 ''comment'' (Str ''read'')) ! 13 = CHR ''=''
   \<and> node_text (line 10 ''eprinttype'' (Str ''arXiv'')) ! 13 = CHR ''=''"
proof -
  let ?p = "[(''doi'', Str ''10.1/x''), (''comment'', Str ''read''), (''eprinttype'', Str ''arXiv'')]"
  have ne: "?p \<noteq> []" by simp
  have ty: "abstract_typed ?p" by (simp add: abstract_typed_def get_prop_def)
  have m: "maxLen ?p = 10" by (simp add: maxLen_def Object_keys_def)
  have pd: "padded ?p = ?p" by (simp add: padded_def get_prop_def)
  have ks: "length ` set (Object_keys ?p) = {3, 7, 10}" by (auto simp add: Object_keys_def)
  note t = formatEntry_aligned [OF ne ty, of "''article''" "''Doe2020''"]
  from t have "formatEntry ''article'' ?p ''Doe2020'' =
      (Inr (header ''article'' ''Doe2020'' #
            map (\<lambda>k. line (maxLen ?p) k (get_prop (padded ?p) k)) (Object_keys ?p) @
            [Leaf (Str ''}'')]),
       padded ?p)"
    by (rule conjunct1)
  then have f: "fst (formatEntry ''article'' ?p ''Doe2020'') =
     Inr [header ''article'' ''Doe2020'',
          line 10 ''doi'' (Str ''10.1/x''),
          line 10 ''comment'' (Str ''read''),
          line 10 ''eprinttype'' (Str ''arXiv''),
          Leaf (Str ''}'')]"
    unfolding m pd by (simp add: Object_keys_def get_prop_def)
  from t ks have "\<forall>k\<in>set (Object_keys ?p).
      node_text (line (maxLen ?p) k (get_prop (padded ?p) k)) ! (2 + 10 + 1) = CHR ''=''"
    by blast
  then have e: "node_text (line 10 ''doi'' (Str ''10.1/x'')) ! 13 = CHR ''=''
      \<and> node_text (line 10 ''comment'' (Str ''read'')) ! 13 = CHR ''=''
      \<and> node_text (line 10 ''eprinttype'' (Str ''arXiv'')) ! 13 = CHR ''=''"
    unfolding m pd by (simp add: Object_keys_def get_prop_def)
  from f e show ?thesis by (rule conjI)
qed

section \<open>Multi-line values\<close>

lemma replace_newlines_append:
  "replace_newlines (x @ y) r = replace_newlines x r @ replace_newlines y r"
  by (simp add: replace_newlines_def)

lemma replace_newlines_break:
  "replace_newlines (x @ newline # y) r = replace_newlines x r @ r @ replace_newlines y r"
  by (simp add: replace_newlines_def)

lemma replace_newlines_none: "newline \<notin> set x \<Longrightarrow> replace_newlines x r = x"
  by (induction x) (auto simp add: replace_newlines_def)

lemma replace_newlines_twice:
  "replace_newlines (replace_newlines a (newline # replicate n space)) (newline # replicate n space)
     = replace_newlines a (newline # replicate (2 * n) space)"
proof (induction a)
  case Nil
  show ?case by (simp add: replace_newlines_def)
next
  case (Cons c a)
  have sp: "newline \<notin> set (replicate n space)" by (auto simp add: newline_def space_def)
  have r: "replace_newlines (newline # replicate n space) (newline # replicate n space)
      = newline # replicate (2 * n) space"
    using replace_newlines_break [of "[]" "replicate n space" "newline # replicate n space"]
      replace_newlines_none [OF sp]
    by (simp add: replace_newlines_def replicate_add [symmetric] mult_2)
  have nl: "replace_newlines (newline # x) q = q @ replace_newlines x q" for q x
    by (simp add: replace_newlines_def)
  have other: "replace_newlines (c # x) q = c # replace_newlines x q" if "c \<noteq> newline" for q x
    using that by (simp add: replace_newlines_def)
  show ?case
  proof (cases "c = newline")
    case True
    have "replace_newlines (replace_newlines (newline # a) (newline # replicate n space))
            (newline # replicate n space) =
          replace_newlines (newline # replicate n space) (newline # replicate n space) @
          replace_newlines (replace_newlines a (newline # replicate n space))
            (newline # replicate n space)"
      by (simp only: nl replace_newlines_append)
    also have "\<dots> = (newline # replicate (2 * n) space) @
          replace_newlines a (newline # replicate (2 * n) space)"
      by (simp only: r Cons.IH)
    also have "\<dots> = replace_newlines (newline # a) (newline # replicate (2 * n) space)"
      by (simp only: nl)
    finally show ?thesis by (simp only: True)
  next
    case False
    then show ?thesis
      using Cons.IH by (simp add: other)
  qed
qed

lemma length_replace_newlines:
  "length (replace_newlines a r) =
     length (filter (\<lambda>c. c \<noteq> newline) a) + length (filter (\<lambda>c. c = newline) a) * length r"
  by (induction a) (simp_all add: replace_newlines_def)

text \<open>
  C4, as stated, at a pairing with the multi-line value \<open>a\<close>, line break, \<open>b\<close> under the key
  \<open>comment\<close>: the value is rendered as it is, the line break is followed by \<open>b\<close> and not
  by spaces.
\<close>

theorem formatEntry_multiline_counterexample:
  "formatEntry ''misc'' [(''comment'', Str (''a'' @ [newline] @ ''b''))] ''Doe2020'' =
     (Inr [Leaf (Str (''@misc{Doe2020,'' @ [newline])),
           Fragment ''comment''
             [Str ''  '', Str ''comment'', Str [], Str '' = {'',
              Str (''a'' @ [newline] @ ''b''), Str (''},'' @ [newline])],
           Leaf (Str ''}'')],
      [(''comment'', Str (''a'' @ [newline] @ ''b''))])"
  by (simp add: formatEntry_def pad_abstract_def get_prop_def maxKeyLength_def Math_max_def
      Object_keys_def fragment_def minus_num_def repeat_def)

text \<open>
  C4, amended. Only the value under the key \<open>abstract\<close> is padded. When it is a non-empty
  string, \<open>formatEntry\<close> renders it with every line break replaced by a line break followed
  by \<open>maxLen p + 6\<close> spaces, which is the number of characters before the value in the
  fragment of a key (two spaces, the padded key and \<open> = {\<close>), so that each continuation line
  starts in the column where the value starts. The value of every other key is rendered
  unchanged, with its line breaks as they are.
\<close>

theorem formatEntry_pads_abstract:
  assumes "get_prop p ''abstract'' = Str a" and "a \<noteq> []"
  shows "formatEntry t p key =
      (Inr (header t key #
            map (\<lambda>k. line (maxLen p) k (get_prop (padded p) k)) (Object_keys p) @
            [Leaf (Str ''}'')]),
       padded p)
    \<and> ''abstract'' \<in> set (Object_keys p)
    \<and> get_prop (padded p) ''abstract'' =
        Str (replace_newlines a (newline # replicate (maxLen p + 6) space))
    \<and> (\<forall>x y. replace_newlines (x @ newline # y) (newline # replicate (maxLen p + 6) space) =
          replace_newlines x (newline # replicate (maxLen p + 6) space) @
          newline # replicate (maxLen p + 6) space @
          replace_newlines y (newline # replicate (maxLen p + 6) space))
    \<and> (\<forall>x. newline \<notin> set x \<longrightarrow>
          replace_newlines x (newline # replicate (maxLen p + 6) space) = x)
    \<and> length (''  '' @ ''abstract'' @ replicate (maxLen p - length ''abstract'') space @ '' = {'')
        = maxLen p + 6
    \<and> (\<forall>k. k \<noteq> ''abstract'' \<longrightarrow> get_prop (padded p) k = get_prop p k)"
proof -
  have ty: "abstract_typed p" by (simp add: abstract_typed_def assms(1))
  have "truthy (get_prop p ''abstract'')" using assms by simp
  then have "''abstract'' \<in> set (map fst p)" by (rule truthy_in_keys)
  then have k: "''abstract'' \<in> set (Object_keys p)" by (simp add: Object_keys_def)
  then have "length ''abstract'' \<le> maxLen p" by (rule length_le_maxLen)
  then have l: "length (''  '' @ ''abstract'' @ replicate (maxLen p - length ''abstract'') space
      @ '' = {'') = maxLen p + 6"
    by simp
  have v: "get_prop (padded p) ''abstract'' =
        Str (replace_newlines a (newline # replicate (maxLen p + 6) space))"
    using assms by (simp add: padded_def get_set_prop_same)
  have b: "\<forall>x y. replace_newlines (x @ newline # y) (newline # replicate (maxLen p + 6) space) =
          replace_newlines x (newline # replicate (maxLen p + 6) space) @
          newline # replicate (maxLen p + 6) space @
          replace_newlines y (newline # replicate (maxLen p + 6) space)"
    by (simp add: replace_newlines_break)
  have n: "\<forall>x. newline \<notin> set x \<longrightarrow>
          replace_newlines x (newline # replicate (maxLen p + 6) space) = x"
    by (simp add: replace_newlines_none)
  have o: "\<forall>k. k \<noteq> ''abstract'' \<longrightarrow> get_prop (padded p) k = get_prop p k"
    by (simp add: get_prop_padded_other)
  from formatEntry_typed [OF ty, of t key] k v b n l o show ?thesis by blast
qed

theorem formatEntry_pads_abstract_witness:
  "formatEntry ''misc''
     [(''title'', Str ''T''), (''abstract'', Str (''a'' @ [newline] @ ''b''))] ''Doe2020'' =
     (Inr [header ''misc'' ''Doe2020'',
           line 8 ''title'' (Str ''T''),
           line 8 ''abstract'' (Str (''a'' @ [newline] @ replicate 14 space @ ''b'')),
           Leaf (Str ''}'')],
      [(''title'', Str ''T''),
       (''abstract'', Str (''a'' @ [newline] @ replicate 14 space @ ''b''))])"
proof -
  let ?p = "[(''title'', Str ''T''), (''abstract'', Str (''a'' @ [newline] @ ''b''))]"
  have g: "get_prop ?p ''abstract'' = Str (''a'' @ [newline] @ ''b'')"
    by (simp add: get_prop_def)
  have ne: "''a'' @ [newline] @ ''b'' \<noteq> []" by simp
  have m: "maxLen ?p = 8" by (simp add: maxLen_def Object_keys_def)
  have pd: "padded ?p =
      [(''title'', Str ''T''),
       (''abstract'', Str (''a'' @ [newline] @ replicate 14 space @ ''b''))]"
    by (simp add: padded_def get_prop_def maxLen_def Object_keys_def replace_newlines_def newline_def)
  from formatEntry_pads_abstract [OF g ne, of "''misc''" "''Doe2020''"]
  have "formatEntry ''misc'' ?p ''Doe2020'' =
      (Inr (header ''misc'' ''Doe2020'' #
            map (\<lambda>k. line (maxLen ?p) k (get_prop (padded ?p) k)) (Object_keys ?p) @
            [Leaf (Str ''}'')]),
       padded ?p)"
    by (rule conjunct1)
  then show ?thesis
    unfolding m pd by (simp add: Object_keys_def get_prop_def)
qed

section \<open>The effect of \<open>formatEntry\<close> on its argument\<close>

lemma maxLen_padded: "maxLen (padded p) = maxLen p"
  using keys_padded [of p] by (simp add: maxLen_def)

lemma padded_abstract:
  assumes "get_prop p ''abstract'' = Str a" and "a \<noteq> []"
  shows "padded p =
      set_prop ''abstract'' (Str (replace_newlines a (newline # replicate (maxLen p + 6) space))) p"
    and "get_prop (padded p) ''abstract'' =
      Str (replace_newlines a (newline # replicate (maxLen p + 6) space))"
  using assms by (simp_all add: padded_def get_set_prop_same)

lemma snd_formatEntry:
  assumes "get_prop p ''abstract'' = Str a"
  shows "snd (formatEntry t p key) = padded p"
proof -
  have "abstract_typed p" by (simp add: abstract_typed_def assms)
  then show ?thesis by (simp add: formatEntry_typed)
qed

lemma replace_newlines_differ:
  assumes "newline \<in> set a" and "0 < n"
  shows "replace_newlines a (newline # replicate (2 * n) space) \<noteq>
         replace_newlines a (newline # replicate n space)"
proof -
  from assms(1) have "filter (\<lambda>c. c = newline) a \<noteq> []"
    by (simp add: filter_empty_conv)
  then have "0 < length (filter (\<lambda>c. c = newline) a)" by simp
  then have "length (replace_newlines a (newline # replicate n space)) <
             length (replace_newlines a (newline # replicate (2 * n) space))"
    using assms(2) by (simp add: length_replace_newlines)
  then show ?thesis by auto
qed

text \<open>
  C10. When the pairing has a non-empty string \<open>a\<close> under \<open>abstract\<close>, the pairing object
  after \<open>formatEntry\<close> is the given one with the value of \<open>abstract\<close> overwritten by \<open>a\<close>
  in which each line break is followed by \<open>maxLen p + 6\<close> spaces; the keys and their order
  and the value of every other key are unchanged. A second call on that object replaces the
  line breaks again, so that each is followed by \<open>2 * (maxLen p + 6)\<close> spaces, which is a
  different text when \<open>a\<close> has a line break.
\<close>

theorem formatEntry_mutates_abstract:
  assumes "get_prop p ''abstract'' = Str a" and "a \<noteq> []"
  shows "snd (formatEntry t p key) =
      set_prop ''abstract'' (Str (replace_newlines a (newline # replicate (maxLen p + 6) space))) p
    \<and> get_prop (snd (formatEntry t p key)) ''abstract'' =
        Str (replace_newlines a (newline # replicate (maxLen p + 6) space))
    \<and> Object_keys (snd (formatEntry t p key)) = Object_keys p
    \<and> (\<forall>k. k \<noteq> ''abstract'' \<longrightarrow> get_prop (snd (formatEntry t p key)) k = get_prop p k)
    \<and> get_prop (snd (formatEntry t' (snd (formatEntry t p key)) key')) ''abstract'' =
        Str (replace_newlines (replace_newlines a (newline # replicate (maxLen p + 6) space))
               (newline # replicate (maxLen p + 6) space))
    \<and> replace_newlines (replace_newlines a (newline # replicate (maxLen p + 6) space))
          (newline # replicate (maxLen p + 6) space) =
        replace_newlines a (newline # replicate (2 * (maxLen p + 6)) space)
    \<and> (newline \<in> set a \<longrightarrow>
        get_prop (snd (formatEntry t' (snd (formatEntry t p key)) key')) ''abstract'' \<noteq>
        get_prop (snd (formatEntry t p key)) ''abstract'')"
proof -
  let ?r = "newline # replicate (maxLen p + 6) space"
  have s1: "snd (formatEntry t p key) = padded p" using assms(1) by (rule snd_formatEntry)
  have g1: "get_prop (padded p) ''abstract'' = Str (replace_newlines a ?r)"
    using assms by (rule padded_abstract(2))
  have ne: "replace_newlines a ?r \<noteq> []" using assms(2) by (simp add: replace_newlines_empty)
  have s2: "snd (formatEntry t' (padded p) key') = padded (padded p)"
    using g1 by (rule snd_formatEntry)
  have g2: "get_prop (padded (padded p)) ''abstract'' =
      Str (replace_newlines (replace_newlines a ?r) ?r)"
    using padded_abstract(2) [OF g1 ne] by (simp add: maxLen_padded)
  have tw: "replace_newlines (replace_newlines a ?r) ?r =
      replace_newlines a (newline # replicate (2 * (maxLen p + 6)) space)"
    by (rule replace_newlines_twice)
  have df: "get_prop (padded (padded p)) ''abstract'' \<noteq> get_prop (padded p) ''abstract''"
    if "newline \<in> set a"
    using replace_newlines_differ [OF that, of "maxLen p + 6"] by (simp add: g1 g2 tw)
  have o: "\<forall>k. k \<noteq> ''abstract'' \<longrightarrow> get_prop (padded p) k = get_prop p k"
    by (simp add: get_prop_padded_other)
  show ?thesis
    unfolding s1 s2
    using padded_abstract(1) [OF assms] g1 keys_padded [of p] o g2 tw df by blast
qed

theorem formatEntry_mutates_abstract_witness:
  "snd (formatEntry ''misc''
          [(''title'', Str ''T''), (''abstract'', Str (''a'' @ [newline] @ ''b''))] ''Doe2020'') =
     [(''title'', Str ''T''),
      (''abstract'', Str (''a'' @ [newline] @ replicate 14 space @ ''b''))]
   \<and> get_prop (snd (formatEntry ''misc'' (snd (formatEntry ''misc''
          [(''title'', Str ''T''), (''abstract'', Str (''a'' @ [newline] @ ''b''))] ''Doe2020''))
          ''Doe2020'')) ''abstract'' =
     Str (''a'' @ [newline] @ replicate 28 space @ ''b'')"
proof -
  let ?p = "[(''title'', Str ''T''), (''abstract'', Str (''a'' @ [newline] @ ''b''))]"
  have g: "get_prop ?p ''abstract'' = Str (''a'' @ [newline] @ ''b'')"
    by (simp add: get_prop_def)
  have ne: "''a'' @ [newline] @ ''b'' \<noteq> []" by simp
  have m: "maxLen ?p + 6 = 14" by (simp add: maxLen_def Object_keys_def)
  have r1: "replace_newlines (''a'' @ [newline] @ ''b'') (newline # replicate 14 space) =
      ''a'' @ [newline] @ replicate 14 space @ ''b''"
    by (simp add: replace_newlines_def newline_def)
  have r2: "replace_newlines (''a'' @ [newline] @ ''b'') (newline # replicate (2 * 14) space) =
      ''a'' @ [newline] @ replicate 28 space @ ''b''"
    by (simp add: replace_newlines_def newline_def)
  note t = formatEntry_mutates_abstract [OF g ne, of "''misc''" "''Doe2020''" "''misc''" "''Doe2020''"]
  from t have "snd (formatEntry ''misc'' ?p ''Doe2020'') =
      set_prop ''abstract''
        (Str (replace_newlines (''a'' @ [newline] @ ''b'') (newline # replicate (maxLen ?p + 6) space)))
        ?p"
    by (rule conjunct1)
  then have a: "snd (formatEntry ''misc'' ?p ''Doe2020'') =
     [(''title'', Str ''T''),
      (''abstract'', Str (''a'' @ [newline] @ replicate 14 space @ ''b''))]"
    unfolding m r1 by simp
  note c5 = t [THEN conjunct2, THEN conjunct2, THEN conjunct2, THEN conjunct2, THEN conjunct1]
  note c6 = t [THEN conjunct2, THEN conjunct2, THEN conjunct2, THEN conjunct2, THEN conjunct2,
    THEN conjunct1]
  have "get_prop (snd (formatEntry ''misc'' (snd (formatEntry ''misc'' ?p ''Doe2020''))
        ''Doe2020'')) ''abstract'' =
      Str (replace_newlines (''a'' @ [newline] @ ''b'')
             (newline # replicate (2 * (maxLen ?p + 6)) space))"
    using c5 by (simp only: c6)
  then have b: "get_prop (snd (formatEntry ''misc'' (snd (formatEntry ''misc'' ?p ''Doe2020''))
        ''Doe2020'')) ''abstract'' =
      Str (''a'' @ [newline] @ replicate 28 space @ ''b'')"
    by (simp only: m r2)
  from a b show ?thesis by (rule conjI)
qed

section \<open>A pairing without line breaks\<close>

lemma set_prop_get_prop: "k \<in> set (map fst p) \<Longrightarrow> set_prop k (get_prop p k) p = p"
  by (induction p) (force simp add: get_prop_def image_iff)+

lemma padded_no_break:
  assumes "abstract_typed p" and "\<forall>a. get_prop p ''abstract'' = Str a \<longrightarrow> newline \<notin> set a"
  shows "padded p = p"
proof (cases "get_prop p ''abstract''")
  case (Str a)
  show ?thesis
  proof (cases "a = []")
    case True
    then show ?thesis by (simp add: padded_def Str)
  next
    case False
    then have "truthy (get_prop p ''abstract'')" by (simp add: Str)
    then have k: "''abstract'' \<in> set (map fst p)" by (rule truthy_in_keys)
    have "replace_newlines a (newline # replicate (maxLen p + 6) space) = a"
      using assms(2) Str by (simp add: replace_newlines_none)
    then show ?thesis
      using False set_prop_get_prop [OF k] by (simp add: padded_def Str)
  qed
qed (simp_all add: padded_def)

section \<open>The round trip\<close>

lemma lines_of_line: "newline \<notin> set l \<Longrightarrow> lines_of (l @ newline # rest) = l # lines_of rest"
  by (induction l) (auto simp add: lines_of_def lines_step_def)

lemma lines_of_concat:
  "(\<And>x. x \<in> set xs \<Longrightarrow> newline \<notin> set (f x)) \<Longrightarrow>
   lines_of (concat (map (\<lambda>x. f x @ [newline]) xs)) = map f xs"
proof (induction xs)
  case Nil
  show ?case by (simp add: lines_of_def)
next
  case (Cons x xs)
  have "lines_of (f x @ newline # concat (map (\<lambda>x. f x @ [newline]) xs)) =
        f x # lines_of (concat (map (\<lambda>x. f x @ [newline]) xs))"
    using Cons.prems by (intro lines_of_line) simp
  then show ?case using Cons by simp
qed

lemma dropWhile_all: "\<forall>c\<in>set xs. P c \<Longrightarrow> dropWhile P (xs @ ys) = dropWhile P ys"
  by (induction xs) auto

lemma trim_core:
  assumes "\<forall>c\<in>set a. isSpace c" and "\<forall>c\<in>set b. isSpace c"
    and "m = [] \<or> (\<not> isSpace (hd m) \<and> \<not> isSpace (last m))"
  shows "trim (a @ m @ b) = m"
proof (cases "m = []")
  case True
  have e: "dropWhile isSpace (a @ b) = []"
    using assms(1,2) by (auto simp add: dropWhile_eq_Nil_conv)
  have "trim (a @ m @ b) = rev (dropWhile isSpace (rev (dropWhile isSpace (a @ b))))"
    by (simp only: trim_def True append_Nil)
  also have "\<dots> = []" by (simp only: e) simp
  finally show ?thesis using True by simp
next
  case False
  with assms(3) have h: "\<not> isSpace (hd m)" and l: "\<not> isSpace (last m)" by simp_all
  have "dropWhile isSpace (a @ m @ b) = dropWhile isSpace (m @ b)"
    using assms(1) by (rule dropWhile_all)
  also have "\<dots> = m @ b" using False h by (cases m) simp_all
  finally have d: "dropWhile isSpace (a @ m @ b) = m @ b" .
  have "\<forall>c\<in>set (rev b). isSpace c" using assms(2) by simp
  then have "dropWhile isSpace (rev b @ rev m) = dropWhile isSpace (rev m)"
    by (rule dropWhile_all)
  also have "\<dots> = rev m"
    using False l by (cases "rev m") (simp_all add: hd_rev [symmetric] del: hd_rev)
  finally show ?thesis by (simp add: trim_def d)
qed

lemma takeWhile_until:
  "\<forall>c\<in>set xs. P c \<Longrightarrow> \<not> P x \<Longrightarrow> takeWhile P (xs @ x # ys) = xs"
  by (induction xs) auto

lemma dropWhile_until:
  "\<forall>c\<in>set xs. P c \<Longrightarrow> \<not> P x \<Longrightarrow> dropWhile P (xs @ x # ys) = x # ys"
  by (induction xs) auto

lemma those_map_Some: "those (map (\<lambda>x. Some (g x)) xs) = Some (map g xs)"
  by (induction xs) simp_all

lemma isSpace_space: "isSpace space"
  by (simp add: isSpace_def space_def)


lemma parse_line_rendered:
  assumes "CHR ''='' \<notin> set k" and "k = [] \<or> (\<not> isSpace (hd k) \<and> \<not> isSpace (last k))"
  shows "parse_line (''  '' @ k @ replicate n space @ '' = {'' @ v @ ''},'') = Some (k, v)"
proof -
  let ?l = "''  '' @ k @ replicate n space @ '' = {'' @ v @ ''},''"
  let ?pre = "''  '' @ k @ replicate n space @ '' ''"
  let ?post = "'' {'' @ v @ ''},''"
  have l: "?l = ?pre @ CHR ''='' # ?post" by simp
  have pre: "\<forall>c\<in>set ?pre. c \<noteq> CHR ''=''"
    using assms(1) by (auto simp add: space_def)
  have tw: "takeWhile (\<lambda>c. c \<noteq> CHR ''='') ?l = ?pre"
    unfolding l using pre by (intro takeWhile_until) simp_all
  have dw: "dropWhile (\<lambda>c. c \<noteq> CHR ''='') ?l = CHR ''='' # ?post"
    unfolding l using pre by (intro dropWhile_until) simp_all
  have "trim (''  '' @ k @ (replicate n space @ '' '')) = k"
    using assms(2) by (intro trim_core) (auto simp add: isSpace_def space_def)
  then have tk: "trim ?pre = k" by simp
  have "trim ('' '' @ (''{'' @ v @ ''},'') @ []) = ''{'' @ v @ ''},''"
    by (intro trim_core) (auto simp add: isSpace_def)
  then have tv: "trim ?post = ''{'' @ v @ ''},''" by simp
  have mem: "CHR ''='' \<in> set ?l" by simp
  show ?thesis
    unfolding parse_line_def Let_def tw dw
    using mem by (simp only: if_True drop_Suc_Cons drop_0 One_nat_def tk tv) simp
qed


lemma is_fragment_line: "is_fragment (line m k v)"
  by (simp add: is_fragment_def line_def)

lemma body_text_rendered:
  "body_text (header t key # map (\<lambda>k. line m k (g k)) ks @ [Leaf (Str ''}'')]) =
     concat (map (\<lambda>k. node_text (line m k (g k))) ks)"
proof -
  have "filter is_fragment (map (\<lambda>k. line m k (g k)) ks) = map (\<lambda>k. line m k (g k)) ks"
    by (simp add: is_fragment_line filter_map comp_def)
  then show ?thesis
    by (simp add: body_text_def header_def is_fragment_def comp_def)
qed

text \<open>
  C8, as stated, at two pairings. The pairing with the abstract \<open>a\<close>, line break, \<open>b\<close> is
  rendered on two lines, the first of which has no closing \<open>},\<close>: re-parsing the lines does
  not give the pairs back. The pairing whose \<open>note\<close> is the text \<open>x},\<close>, line break,
  \<open>  file = {y\<close> is rendered to the same text as the pairing with the note \<open>x\<close> and the
  file \<open>y\<close>, so that no way of reading the text gives both back.
\<close>

theorem reparse_counterexample:
  "map_sum id (\<lambda>nodes. reparse (body_text nodes))
     (fst (formatEntry ''misc'' [(''abstract'', Str (''a'' @ [newline] @ ''b''))] ''Doe2020''))
     = Inr None
   \<and> map_sum id innerText
       (fst (formatEntry ''misc''
          [(''note'', Str (''x},'' @ [newline] @ ''  file = {y''))] ''Doe2020''))
     = map_sum id innerText
       (fst (formatEntry ''misc'' [(''note'', Str ''x''), (''file'', Str ''y'')] ''Doe2020''))"
  by code_simp

text \<open>
  C8, amended. For a pairing whose \<open>abstract\<close>, if any, is a string, whose keys contain
  neither \<open>=\<close> nor a line break and neither begin nor end with a whitespace character, and
  whose values are rendered without a line break, \<open>formatEntry\<close> leaves the pairing as
  it is, and reading the rendered \<open>key = {value}\<close> lines back (each line split on its
  first \<open>=\<close>, both sides trimmed, the value read between \<open>{\<close> and \<open>},\<close>) gives the keys
  with the texts of their values, in the order of the pairing.
\<close>

theorem reparse_formatEntry:
  assumes "wf_object p" and "abstract_typed p"
    and "\<forall>k\<in>set (Object_keys p). CHR ''='' \<notin> set k \<and> newline \<notin> set k
           \<and> (k = [] \<or> (\<not> isSpace (hd k) \<and> \<not> isSpace (last k)))"
    and "\<forall>kv\<in>set p. newline \<notin> set (val_text (snd kv))"
  shows "\<exists>nodes. formatEntry t p key = (Inr nodes, p)
    \<and> reparse (body_text nodes) = Some (map (\<lambda>kv. (fst kv, val_text (snd kv))) p)"
proof -
  let ?L = "\<lambda>kv. ''  '' @ fst kv @ replicate (maxLen p - length (fst kv)) space @ '' = {'' @
                 val_text (snd kv) @ ''},''"
  let ?nodes = "header t key # map (\<lambda>k. line (maxLen p) k (get_prop p k)) (Object_keys p) @
                [Leaf (Str ''}'')]"
  have d: "distinct (map fst p)" using assms(1) by (simp add: wf_object_def)
  have nb: "\<forall>a. get_prop p ''abstract'' = Str a \<longrightarrow> newline \<notin> set a"
  proof (intro allI impI)
    fix a assume a: "get_prop p ''abstract'' = Str a"
    show "newline \<notin> set a"
    proof (cases "''abstract'' \<in> set (map fst p)")
      case True
      then have "(''abstract'', Str a) \<in> set p" using in_set_get_prop [OF True] a by simp
      with assms(4) show ?thesis by force
    next
      case False
      then show ?thesis using get_prop_absent [OF False] a by simp
    qed
  qed
  have pd: "padded p = p" using assms(2) nb by (rule padded_no_break)
  have f: "formatEntry t p key = (Inr ?nodes, p)"
    using formatEntry_typed [OF assms(2), of t key] by (simp add: pd)
  have mk: "map (\<lambda>k. node_text (line (maxLen p) k (get_prop p k))) (map fst p) =
      map (\<lambda>kv. node_text (line (maxLen p) (fst kv) (snd kv))) p"
    using map_keys_pairs [OF d, of "\<lambda>k v. node_text (line (maxLen p) k v)"] .
  have "body_text ?nodes =
      concat (map (\<lambda>k. node_text (line (maxLen p) k (get_prop p k))) (Object_keys p))"
    by (rule body_text_rendered)
  also have "\<dots> = concat (map (\<lambda>kv. node_text (line (maxLen p) (fst kv) (snd kv))) p)"
    by (simp only: Object_keys_def mk)
  also have "\<dots> = concat (map (\<lambda>kv. ?L kv @ [newline]) p)"
    by (simp add: node_text_line)
  finally have b: "body_text ?nodes = concat (map (\<lambda>kv. ?L kv @ [newline]) p)" .
  have key_ok: "CHR ''='' \<notin> set (fst kv) \<and> newline \<notin> set (fst kv)
      \<and> (fst kv = [] \<or> (\<not> isSpace (hd (fst kv)) \<and> \<not> isSpace (last (fst kv))))"
    if "kv \<in> set p" for kv
    using assms(3) that by (simp add: Object_keys_def)
  have nl: "newline \<notin> set (?L kv)" if "kv \<in> set p" for kv
  proof -
    have "newline \<notin> set (fst kv)" using key_ok [OF that] by blast
    moreover have "newline \<notin> set (val_text (snd kv))" using assms(4) that by blast
    ultimately show ?thesis by (auto simp add: newline_def space_def)
  qed
  have "lines_of (concat (map (\<lambda>kv. ?L kv @ [newline]) p)) = map ?L p"
    using nl by (rule lines_of_concat)
  then have "reparse (body_text ?nodes) = those (map parse_line (map ?L p))"
    by (simp add: reparse_def b)
  also have "map parse_line (map ?L p) = map (\<lambda>kv. Some (fst kv, val_text (snd kv))) p"
  proof -
    have pl: "parse_line (?L kv) = Some (fst kv, val_text (snd kv))" if "kv \<in> set p" for kv
      using key_ok [OF that] by (intro parse_line_rendered) simp_all
    have "map (parse_line \<circ> ?L) p = map (\<lambda>kv. Some (fst kv, val_text (snd kv))) p"
      by (rule map_cong [OF refl]) (simp only: comp_apply pl)
    then show ?thesis by (simp only: map_map)
  qed
  also have "those \<dots> = Some (map (\<lambda>kv. (fst kv, val_text (snd kv))) p)"
    by (rule those_map_Some)
  finally show ?thesis using f by blast
qed

theorem reparse_formatEntry_witness:
  "reparse (body_text
     [header ''misc'' ''Doe2020'',
      line 5 ''title'' (Str ''A title''),
      line 5 ''doi'' (Elem (Anchor ''https://dx.doi.org/10.1/x'' ''10.1/x'')),
      Leaf (Str ''}'')]) =
   Some [(''title'', ''A title''), (''doi'', ''10.1/x'')]"
proof -
  let ?p = "[(''title'', Str ''A title''),
             (''doi'', Elem (Anchor ''https://dx.doi.org/10.1/x'' ''10.1/x''))]"
  let ?nodes = "[header ''misc'' ''Doe2020'',
      line 5 ''title'' (Str ''A title''),
      line 5 ''doi'' (Elem (Anchor ''https://dx.doi.org/10.1/x'' ''10.1/x'')),
      Leaf (Str ''}'')]"
  have 1: "wf_object ?p" by (simp add: wf_object_def)
  have 2: "abstract_typed ?p" by (simp add: abstract_typed_def get_prop_def)
  have 3: "\<forall>k\<in>set (Object_keys ?p). CHR ''='' \<notin> set k \<and> newline \<notin> set k
      \<and> (k = [] \<or> (\<not> isSpace (hd k) \<and> \<not> isSpace (last k)))"
    by (simp add: Object_keys_def isSpace_def newline_def)
  have 4: "\<forall>kv\<in>set ?p. newline \<notin> set (val_text (snd kv))"
    by (simp add: newline_def)
  have m: "maxLen ?p = 5" by (simp add: maxLen_def Object_keys_def)
  have pd: "padded ?p = ?p" by (simp add: padded_def get_prop_def)
  have f: "formatEntry ''misc'' ?p ''Doe2020'' = (Inr ?nodes, ?p)"
    unfolding formatEntry_typed [OF 2] m pd by (simp add: Object_keys_def get_prop_def)
  from reparse_formatEntry [OF 1 2 3 4, of "''misc''" "''Doe2020''"]
  obtain nodes where n: "formatEntry ''misc'' ?p ''Doe2020'' = (Inr nodes, ?p)"
    and r: "reparse (body_text nodes) = Some (map (\<lambda>kv. (fst kv, val_text (snd kv))) ?p)"
    by blast
  from n f have "nodes = ?nodes" by simp
  with r show ?thesis by simp
qed

section \<open>Entries without line breaks\<close>






















section \<open>The lines of the rendered text\<close>






section \<open>No empty value and no blank line\<close>




section \<open>Rendering twice\<close>




end
